theory Spec2Isabelle
  imports Main "HOL-Library.Word"
begin

section \<open>The Borsh instruction coder of \<^verbatim>\<open>coder/borsh/instruction.ts\<close>\<close>

subsection \<open>Values, errors and buffers\<close>

type_synonym byte = "8 word"

text \<open>A \<^verbatim>\<open>Buffer\<close> is its sequence of bytes.\<close>

type_synonym Buffer = "byte list"

text \<open>
  The JavaScript values that instruction data is made of. \<open>JNum\<close> is a number holding an
  integer, \<open>JBig\<close> a big integer object (\<^verbatim>\<open>BN\<close>, what the layouts give for the integers of
  64 bits and more); \<open>JObj\<close> is a plain object, its own enumerable string keys in the
  order \<^verbatim>\<open>Object.keys\<close> lists them. A number that is no integer has no value here.
\<close>

datatype jsval =
    JUndefined
  | JNull
  | JBool bool
  | JNum int
  | JBig int
  | JStr string
  | JArr "jsval list"
  | JObj "(string \<times> jsval) list"

text \<open>
  What a call can throw: an \<^verbatim>\<open>Error\<close> with its message, the engine's \<^verbatim>\<open>TypeError\<close>
  (a property read on \<^verbatim>\<open>null\<close>/\<^verbatim>\<open>undefined\<close>, a call of something that is no function),
  a \<^verbatim>\<open>RangeError\<close> (a write past the end of a buffer), and whatever a layout of the
  Borsh library raises on a value or on bytes it cannot handle. \<open>NotModelled\<close> is no
  error of the program: it marks the places where the model of the values stops.
\<close>

datatype error =
    Error string
  | TypeError
  | RangeError
  | LayoutError string
  | NotModelled

text \<open>\<^verbatim>\<open>buf.subarray(0, end)\<close> and \<^verbatim>\<open>buf.subarray(start)\<close>; an \<^verbatim>\<open>undefined\<close> end is the
  buffer's length, an \<^verbatim>\<open>undefined\<close> start is 0, and both are clamped to the buffer.\<close>

definition subarray_to :: "Buffer \<Rightarrow> nat option \<Rightarrow> Buffer" where
  "subarray_to buf e = (case e of None \<Rightarrow> buf | Some n \<Rightarrow> take n buf)"

definition subarray_from :: "Buffer \<Rightarrow> nat option \<Rightarrow> Buffer" where
  "subarray_from buf s = (case s of None \<Rightarrow> buf | Some n \<Rightarrow> drop n buf)"

text \<open>\<^verbatim>\<open>Buffer.from(numbers)\<close>: every entry is reduced modulo 256.\<close>

definition Buffer_from :: "int list \<Rightarrow> Buffer" where
  "Buffer_from ns = map word_of_int ns"

subsection \<open>The schema (\<^verbatim>\<open>Idl\<close>)\<close>

text \<open>
  A type reference: a string is a primitive, an object carries one of the keys
  \<^verbatim>\<open>vec\<close>, \<^verbatim>\<open>option\<close>, \<^verbatim>\<open>defined\<close>, \<^verbatim>\<open>array\<close>; \<open>IdlTypeOther\<close> is an object with none of them.
\<close>

datatype IdlType =
    IdlTypePrim string
  | IdlTypeVec IdlType
  | IdlTypeOption IdlType
  | IdlTypeDefined string
  | IdlTypeArray IdlType nat
  | IdlTypeOther

record IdlField =
  field_name :: string
  field_type :: IdlType

datatype IdlEnumFields = IdlNamedFields "IdlField list" | IdlTupleFields "IdlType list"

record IdlEnumVariant =
  variant_name :: string
  variant_fields :: "IdlEnumFields option"

datatype IdlTypeDefTy = IdlTyStruct "IdlField list" | IdlTyEnum "IdlEnumVariant list"

record IdlTypeDef =
  typedef_name :: string
  typedef_type :: IdlTypeDefTy

record IdlAccount =
  account_name :: string
  account_isMut :: bool
  account_isSigner :: bool

text \<open>An account item is a single account or a named group of items (it has the key
  \<^verbatim>\<open>accounts\<close>).\<close>

datatype IdlAccountItem = IdlAccountLeaf IdlAccount | IdlAccounts string "IdlAccountItem list"

record IdlInstruction =
  ix_name :: string
  ix_accounts :: "IdlAccountItem list"
  ix_args :: "IdlField list"
  ix_discriminant :: "int list option"

record Idl =
  idl_instructions :: "IdlInstruction list"
  idl_accounts :: "IdlTypeDef list option"
  idl_types :: "IdlTypeDef list option"

subsection \<open>What the module imports\<close>

text \<open>
  A \<^verbatim>\<open>Layout\<close> of the Borsh library, as far as the coder uses it: \<open>layout_encode\<close> gives
  the bytes that \<^verbatim>\<open>layout.encode(value, buffer)\<close> writes from offset 0 on (or what it
  throws on the value), \<open>layout_decode\<close> is \<^verbatim>\<open>layout.decode(bytes)\<close>.
\<close>

record Layout =
  layout_encode :: "jsval \<Rightarrow> error + Buffer"
  layout_decode :: "Buffer \<Rightarrow> error + jsval"

text \<open>
  The imported functions are parameters of the model: \<^verbatim>\<open>bs58.encode\<close>, \<^verbatim>\<open>bs58.decode\<close>,
  \<^verbatim>\<open>Buffer.from(text, "hex")\<close>, \<^verbatim>\<open>camelCase\<close> (plain and with \<^verbatim>\<open>pascalCase: true\<close>),
  \<^verbatim>\<open>snakeCase\<close>, \<^verbatim>\<open>sha256.digest\<close>, and \<open>struct_layout types args name\<close> for
  \<^verbatim>\<open>borsh.struct(args.map((arg) => IdlCoder.fieldLayout(arg, types)), name)\<close>, which can throw.
\<close>

record externals =
  bs58_encode :: "Buffer \<Rightarrow> string"
  bs58_decode :: "string \<Rightarrow> error + Buffer"
  hex_decode :: "string \<Rightarrow> Buffer"
  camelCase :: "string \<Rightarrow> string"
  pascalCase :: "string \<Rightarrow> string"
  snakeCase :: "string \<Rightarrow> string"
  sha256_digest :: "string \<Rightarrow> Buffer"
  struct_layout :: "IdlTypeDef list \<Rightarrow> IdlField list \<Rightarrow> string \<Rightarrow> error + Layout"

text \<open>\<^verbatim>\<open>layout.encode(value, buffer)\<close>: the bytes are written into the buffer from offset 0
  and their number is returned; a write past the end of the buffer throws.\<close>

definition layout_encode_into :: "Layout \<Rightarrow> jsval \<Rightarrow> Buffer \<Rightarrow> error + (nat \<times> Buffer)" where
  "layout_encode_into layout v buffer =
     (case layout_encode layout v of
        Inl e \<Rightarrow> Inl e
      | Inr bytes \<Rightarrow>
          if length buffer < length bytes then Inl RangeError
          else Inr (length bytes, bytes @ drop (length bytes) buffer))"

subsection \<open>The coder\<close>

definition SIGHASH_GLOBAL_NAMESPACE :: string where
  "SIGHASH_GLOBAL_NAMESPACE = ''global''"

definition sighash :: "externals \<Rightarrow> string \<Rightarrow> string \<Rightarrow> Buffer" where
  "sighash E nameSpace ixName =
     (let name = snakeCase E ixName;
          preimage = nameSpace @ '':'' @ name
      in take 8 (sha256_digest E preimage))"

text \<open>The fields of a \<^verbatim>\<open>BorshInstructionCoder\<close>. An entry of \<open>discriminatorLayouts\<close> holds
  what \<^verbatim>\<open>this.ixLayout.get(ix.name)\<close> gave, which is \<^verbatim>\<open>undefined\<close> (\<open>None\<close>) on a miss;
  \<open>discriminatorLength\<close> is \<^verbatim>\<open>undefined\<close> until the first instruction sets it.\<close>

record BorshInstructionCoder =
  coder_idl :: Idl
  ixLayout :: "string \<rightharpoonup> Layout"
  discriminatorLayouts :: "string \<rightharpoonup> (Layout option \<times> string)"
  ixDiscriminator :: "string \<rightharpoonup> Buffer"
  discriminatorLength :: "nat option"

text \<open>\<^verbatim>\<open>parseIxLayout\<close>: one entry per instruction, keyed by the camel-cased name;
  \<^verbatim>\<open>new Map(entries)\<close> keeps the last entry of a key.\<close>

fun ixLayout_entries :: "externals \<Rightarrow> IdlTypeDef list \<Rightarrow> IdlInstruction list \<Rightarrow> error + (string \<times> Layout) list" where
  "ixLayout_entries E tys [] = Inr []"
| "ixLayout_entries E tys (ix # ixs) =
     (let name = camelCase E (ix_name ix) in
      case struct_layout E tys (ix_args ix) name of
        Inl e \<Rightarrow> Inl e
      | Inr layout \<Rightarrow>
          (case ixLayout_entries E tys ixs of
             Inl e \<Rightarrow> Inl e
           | Inr rest \<Rightarrow> Inr ((name, layout) # rest)))"

definition Map_of_entries :: "(string \<times> 'v) list \<Rightarrow> (string \<rightharpoonup> 'v)" where
  "Map_of_entries entries = map_of (rev entries)"

text \<open>\<^verbatim>\<open>[...(idl.accounts ?? []), ...(idl.types ?? [])]\<close>, the types handed to the layouts.\<close>

definition all_type_defs :: "Idl \<Rightarrow> IdlTypeDef list" where
  "all_type_defs idl =
     (case idl_accounts idl of None \<Rightarrow> [] | Some a \<Rightarrow> a) @
     (case idl_types idl of None \<Rightarrow> [] | Some t \<Rightarrow> t)"

definition parseIxLayout :: "externals \<Rightarrow> Idl \<Rightarrow> error + (string \<rightharpoonup> Layout)" where
  "parseIxLayout E idl =
     (case ixLayout_entries E (all_type_defs idl) (idl_instructions idl) of
        Inl e \<Rightarrow> Inl e
      | Inr entries \<Rightarrow> Inr (Map_of_entries entries))"

text \<open>The discriminator of one instruction and the length the constructor records
  for it: the explicit bytes and their count, or the sighash and 8.\<close>

definition ix_discriminator :: "externals \<Rightarrow> IdlInstruction \<Rightarrow> Buffer" where
  "ix_discriminator E ix =
     (case ix_discriminant ix of
        Some v \<Rightarrow> Buffer_from v
      | None \<Rightarrow> sighash E SIGHASH_GLOBAL_NAMESPACE (ix_name ix))"

definition ix_discriminatorLength :: "IdlInstruction \<Rightarrow> nat" where
  "ix_discriminatorLength ix =
     (case ix_discriminant ix of Some v \<Rightarrow> length v | None \<Rightarrow> 8)"

text \<open>A number is truthy when it is neither \<^verbatim>\<open>undefined\<close> nor 0.\<close>

definition truthy_length :: "nat option \<Rightarrow> bool" where
  "truthy_length l = (case l of None \<Rightarrow> False | Some n \<Rightarrow> 0 < n)"

text \<open>The body of the constructor's \<^verbatim>\<open>forEach\<close> for one instruction.\<close>

definition constructor_step :: "externals \<Rightarrow> BorshInstructionCoder \<Rightarrow> IdlInstruction \<Rightarrow> error + BorshInstructionCoder" where
  "constructor_step E this ix =
     (let d = ix_discriminator E ix;
          len = ix_discriminatorLength ix;
          this1 = this\<lparr>
            discriminatorLayouts :=
              (discriminatorLayouts this)(bs58_encode E d \<mapsto> (ixLayout this (ix_name ix), ix_name ix)),
            ixDiscriminator := (ixDiscriminator this)(ix_name ix \<mapsto> d)\<rparr>
      in if truthy_length (discriminatorLength this) \<and> discriminatorLength this \<noteq> Some len
         then Inl (Error ''All instructions must have the same discriminator length'')
         else Inr (this1\<lparr>discriminatorLength := Some len\<rparr>))"

fun constructor_forEach :: "externals \<Rightarrow> BorshInstructionCoder \<Rightarrow> IdlInstruction list \<Rightarrow> error + BorshInstructionCoder" where
  "constructor_forEach E this [] = Inr this"
| "constructor_forEach E this (ix # ixs) =
     (case constructor_step E this ix of
        Inl e \<Rightarrow> Inl e
      | Inr this' \<Rightarrow> constructor_forEach E this' ixs)"

text \<open>The constructor: the layouts, then the loop from two empty tables and no recorded
  length. What it throws leaves no coder.\<close>

definition initial_coder :: "Idl \<Rightarrow> (string \<rightharpoonup> Layout) \<Rightarrow> BorshInstructionCoder" where
  "initial_coder idl layouts =
     \<lparr>coder_idl = idl, ixLayout = layouts, discriminatorLayouts = Map.empty,
      ixDiscriminator = Map.empty, discriminatorLength = None\<rparr>"

definition new_BorshInstructionCoder :: "externals \<Rightarrow> Idl \<Rightarrow> error + BorshInstructionCoder" where
  "new_BorshInstructionCoder E idl =
     (case parseIxLayout E idl of
        Inl e \<Rightarrow> Inl e
      | Inr layouts \<Rightarrow> constructor_forEach E (initial_coder idl layouts) (idl_instructions idl))"

text \<open>\<^verbatim>\<open>_encode\<close> and \<^verbatim>\<open>encode\<close>.\<close>

definition encode_ns :: "externals \<Rightarrow> BorshInstructionCoder \<Rightarrow> string \<Rightarrow> string \<Rightarrow> jsval \<Rightarrow> error + Buffer" where
  "encode_ns E this nameSpace ixName ix =
     (let buffer = replicate 1000 (0 :: byte);
          methodName = camelCase E ixName
      in case (ixLayout this methodName, ixDiscriminator this methodName) of
           (Some layout, Some discriminator) \<Rightarrow>
             (case layout_encode_into layout ix buffer of
                Inl e \<Rightarrow> Inl e
              | Inr (len, buffer') \<Rightarrow> Inr (discriminator @ take len buffer'))
         | _ \<Rightarrow> Inl (Error (''Unknown method: '' @ methodName)))"

definition encode :: "externals \<Rightarrow> BorshInstructionCoder \<Rightarrow> string \<Rightarrow> jsval \<Rightarrow> error + Buffer" where
  "encode E this ixName ix = encode_ns E this SIGHASH_GLOBAL_NAMESPACE ixName ix"

text \<open>\<^verbatim>\<open>decode\<close>: the input is a buffer, or a text in one of two encodings.\<close>

datatype ix_input = IxBuffer Buffer | IxString string

datatype encoding = Hex | Base58

record Instruction =
  inst_name :: string
  inst_data :: jsval

definition decode :: "externals \<Rightarrow> BorshInstructionCoder \<Rightarrow> ix_input \<Rightarrow> encoding \<Rightarrow> error + Instruction option" where
  "decode E this input enc =
     (case (case input of
              IxBuffer b \<Rightarrow> Inr b
            | IxString s \<Rightarrow> (if enc = Hex then Inr (hex_decode E s) else bs58_decode E s)) of
        Inl e \<Rightarrow> Inl e
      | Inr ix \<Rightarrow>
          (let sighash = bs58_encode E (subarray_to ix (discriminatorLength this));
               data = subarray_from ix (discriminatorLength this)
           in case discriminatorLayouts this sighash of
                None \<Rightarrow> Inr None
              | Some (layout, name) \<Rightarrow>
                  (case layout of
                     None \<Rightarrow> Inl TypeError
                   | Some l \<Rightarrow>
                       (case layout_decode l data of
                          Inl e \<Rightarrow> Inl e
                        | Inr d \<Rightarrow> Inr (Some \<lparr>inst_name = name, inst_data = d\<rparr>)))))"

text \<open>The expressions \<^verbatim>\<open>new BorshInstructionCoder(idl).encode(name, value)\<close> and
  \<^verbatim>\<open>new BorshInstructionCoder(idl).decode(input, encoding)\<close>: what the constructor throws,
  the call does not happen.\<close>

definition encode_of_schema :: "externals \<Rightarrow> Idl \<Rightarrow> string \<Rightarrow> jsval \<Rightarrow> error + Buffer" where
  "encode_of_schema E idl ixName ix =
     (case new_BorshInstructionCoder E idl of
        Inl e \<Rightarrow> Inl e
      | Inr this \<Rightarrow> encode E this ixName ix)"

definition decode_of_schema :: "externals \<Rightarrow> Idl \<Rightarrow> ix_input \<Rightarrow> encoding \<Rightarrow> error + Instruction option" where
  "decode_of_schema E idl input enc =
     (case new_BorshInstructionCoder E idl of
        Inl e \<Rightarrow> Inl e
      | Inr this \<Rightarrow> decode E this input enc)"

text \<open>\<^verbatim>\<open>coder.decode(coder.encode(name, value))\<close> on a fresh coder of the schema.\<close>

definition decode_encode_of_schema :: "externals \<Rightarrow> Idl \<Rightarrow> string \<Rightarrow> jsval \<Rightarrow> error + Instruction option" where
  "decode_encode_of_schema E idl ixName ix =
     (case new_BorshInstructionCoder E idl of
        Inl e \<Rightarrow> Inl e
      | Inr this \<Rightarrow>
          (case encode E this ixName ix of
             Inl e \<Rightarrow> Inl e
           | Inr bytes \<Rightarrow> decode E this (IxBuffer bytes) Hex))"

subsection \<open>JavaScript values as the formatter uses them\<close>

text \<open>\<^verbatim>\<open>xs.map(f)\<close> for an \<open>f\<close> that can throw: the first throw ends the call.\<close>

fun map_errors :: "('a \<Rightarrow> error + 'b) \<Rightarrow> 'a list \<Rightarrow> error + 'b list" where
  "map_errors f [] = Inr []"
| "map_errors f (x # xs) =
     (case f x of
        Inl e \<Rightarrow> Inl e
      | Inr y \<Rightarrow> (case map_errors f xs of Inl e \<Rightarrow> Inl e | Inr ys \<Rightarrow> Inr (y # ys)))"

lemma map_errors_cong [fundef_cong]:
  "xs = ys \<Longrightarrow> (\<And>x. x \<in> set ys \<Longrightarrow> f x = g x) \<Longrightarrow> map_errors f xs = map_errors g ys"
  by (induction ys arbitrary: xs) (auto split: sum.splits)

text \<open>The decimal text of an integer.\<close>

fun decimal :: "nat \<Rightarrow> string" where
  "decimal n =
     (if n < 10 then [''0123456789'' ! n]
      else decimal (n div 10) @ [''0123456789'' ! (n mod 10)])"

declare decimal.simps [simp del]

definition integer_text :: "int \<Rightarrow> string" where
  "integer_text i = (if i < 0 then ''-'' @ decimal (nat (- i)) else decimal (nat i))"

text \<open>The text of a number that holds an integer: its decimal text below \<open>10\<^sup>2\<^sup>1\<close>. From
  there on JavaScript prints an exponent, which is left out.\<close>

definition number_toString :: "int \<Rightarrow> error + string" where
  "number_toString i =
     (if \<bar>i\<bar> < 1000000000000000000000 then Inr (integer_text i) else Inl NotModelled)"

text \<open>\<^verbatim>\<open>strings.join(sep)\<close>.\<close>

fun join_with :: "string \<Rightarrow> string list \<Rightarrow> string" where
  "join_with sep [] = []"
| "join_with sep [x] = x"
| "join_with sep (x # y # ys) = x @ sep @ join_with sep (y # ys)"

text \<open>The text of a value (\<^verbatim>\<open>String(v)\<close>, and \<^verbatim>\<open>${v}\<close> in a template): a big integer
  object prints in decimal, an array joins its elements with a comma, with nothing for
  \<^verbatim>\<open>null\<close> and \<^verbatim>\<open>undefined\<close>; a plain object is \<^verbatim>\<open>[object Object]\<close>.\<close>

fun js_String :: "jsval \<Rightarrow> error + string" where
  "js_String JUndefined = Inr ''undefined''"
| "js_String JNull = Inr ''null''"
| "js_String (JBool b) = Inr (if b then ''true'' else ''false'')"
| "js_String (JNum n) = number_toString n"
| "js_String (JBig n) = Inr (integer_text n)"
| "js_String (JStr s) = Inr s"
| "js_String (JArr vs) =
     (case map_errors (\<lambda>v. if v = JUndefined \<or> v = JNull then Inr [] else js_String v) vs of
        Inl e \<Rightarrow> Inl e
      | Inr ss \<Rightarrow> Inr (join_with '','' ss))"
| "js_String (JObj kvs) = Inr ''[object Object]''"

text \<open>\<^verbatim>\<open>data.toString()\<close>: a \<^verbatim>\<open>TypeError\<close> on \<^verbatim>\<open>null\<close> and \<^verbatim>\<open>undefined\<close>.\<close>

definition js_toString :: "jsval \<Rightarrow> error + string" where
  "js_toString v = (if v = JUndefined \<or> v = JNull then Inl TypeError else js_String v)"

fun index_of :: "'a \<Rightarrow> 'a list \<Rightarrow> nat" where
  "index_of x [] = 0"
| "index_of x (y # ys) = (if x = y then 0 else Suc (index_of x ys))"

text \<open>The position that a key names in an array of \<open>n\<close> elements, when the key is the
  decimal text of a number below \<open>n\<close>.\<close>

definition array_index :: "string \<Rightarrow> nat \<Rightarrow> nat option" where
  "array_index k n =
     (let ks = map decimal [0..<n] in if k \<in> set ks then Some (index_of k ks) else None)"

text \<open>
  The names of the members that a value has without owning them: those that every
  object inherits, those of the numbers, and those of the arrays (ECMAScript 2023). What
  a read at such a name finds is a function or a prototype, which is no value here.
\<close>

definition OBJECT_MEMBER_NAMES :: "string list" where
  "OBJECT_MEMBER_NAMES =
     [''constructor'', ''hasOwnProperty'', ''isPrototypeOf'', ''propertyIsEnumerable'',
      ''toLocaleString'', ''toString'', ''valueOf'', ''__proto__'',
      ''__defineGetter__'', ''__defineSetter__'', ''__lookupGetter__'', ''__lookupSetter__'']"

definition NUMBER_MEMBER_NAMES :: "string list" where
  "NUMBER_MEMBER_NAMES = [''toExponential'', ''toFixed'', ''toPrecision'']"

definition ARRAY_MEMBER_NAMES :: "string list" where
  "ARRAY_MEMBER_NAMES =
     [''length'', ''constructor'', ''at'', ''concat'', ''copyWithin'', ''fill'', ''find'',
      ''findIndex'', ''findLast'', ''findLastIndex'', ''lastIndexOf'', ''pop'', ''push'',
      ''reverse'', ''shift'', ''unshift'', ''slice'', ''sort'', ''splice'', ''includes'',
      ''indexOf'', ''join'', ''keys'', ''entries'', ''values'', ''forEach'', ''filter'',
      ''flat'', ''flatMap'', ''map'', ''every'', ''some'', ''reduce'', ''reduceRight'',
      ''toLocaleString'', ''toString'', ''toReversed'', ''toSorted'', ''toSpliced'', ''with'',
      ''hasOwnProperty'', ''isPrototypeOf'', ''propertyIsEnumerable'', ''valueOf'',
      ''__defineGetter__'', ''__defineSetter__'', ''__lookupGetter__'', ''__lookupSetter__'']"

text \<open>
  \<^verbatim>\<open>Object.keys(v)\<close> throws on \<^verbatim>\<open>null\<close> and \<^verbatim>\<open>undefined\<close>; a number or a boolean has no
  keys, an array has its indices. \<^verbatim>\<open>v[key]\<close> throws on \<^verbatim>\<open>null\<close> and \<^verbatim>\<open>undefined\<close>, is the
  member for a key that the value owns, and \<^verbatim>\<open>undefined\<close> for a key that names no member
  at all. Left out, with the answer \<open>NotModelled\<close>, are the keys and members of a string
  and of a big integer object, and every read that finds an inherited member, the
  \<^verbatim>\<open>length\<close> of an array apart.
\<close>

fun object_keys :: "jsval \<Rightarrow> error + string list" where
  "object_keys JUndefined = Inl TypeError"
| "object_keys JNull = Inl TypeError"
| "object_keys (JObj kvs) = Inr (map fst kvs)"
| "object_keys (JArr vs) = Inr (map decimal [0..<length vs])"
| "object_keys (JStr s) = Inl NotModelled"
| "object_keys (JBig n) = Inl NotModelled"
| "object_keys _ = Inr []"

definition object_get :: "(string \<times> jsval) list \<Rightarrow> string \<Rightarrow> jsval" where
  "object_get kvs k = (case map_of kvs k of None \<Rightarrow> JUndefined | Some v \<Rightarrow> v)"

definition inherited_member :: "string list \<Rightarrow> string \<Rightarrow> error + jsval" where
  "inherited_member names k = (if k \<in> set names then Inl NotModelled else Inr JUndefined)"

fun js_member :: "jsval \<Rightarrow> string \<Rightarrow> error + jsval" where
  "js_member JUndefined k = Inl TypeError"
| "js_member JNull k = Inl TypeError"
| "js_member (JObj kvs) k =
     (if k \<in> set (map fst kvs) then Inr (object_get kvs k)
      else inherited_member OBJECT_MEMBER_NAMES k)"
| "js_member (JArr vs) k =
     (case array_index k (length vs) of
        Some i \<Rightarrow> Inr (vs ! i)
      | None \<Rightarrow>
          if k = ''length'' then Inr (JNum (int (length vs)))
          else inherited_member (ARRAY_MEMBER_NAMES @ OBJECT_MEMBER_NAMES) k)"
| "js_member (JStr s) k = Inl NotModelled"
| "js_member (JBig n) k = Inl NotModelled"
| "js_member _ k = inherited_member (NUMBER_MEMBER_NAMES @ OBJECT_MEMBER_NAMES) k"

subsection \<open>The formatter\<close>

text \<open>\<^verbatim>\<open>formatIdlType\<close>. The array case puts the element type into the template as it
  is: a string gives its text, an object gives \<^verbatim>\<open>[object Object]\<close>.\<close>

definition template_IdlType :: "IdlType \<Rightarrow> string" where
  "template_IdlType t = (case t of IdlTypePrim s \<Rightarrow> s | _ \<Rightarrow> ''[object Object]'')"

fun formatIdlType :: "IdlType \<Rightarrow> error + string" where
  "formatIdlType (IdlTypePrim s) = Inr s"
| "formatIdlType (IdlTypeVec t) =
     (case formatIdlType t of Inl e \<Rightarrow> Inl e | Inr s \<Rightarrow> Inr (''Vec<'' @ s @ ''>''))"
| "formatIdlType (IdlTypeOption t) =
     (case formatIdlType t of Inl e \<Rightarrow> Inl e | Inr s \<Rightarrow> Inr (''Option<'' @ s @ ''>''))"
| "formatIdlType (IdlTypeDefined n) = Inr n"
| "formatIdlType (IdlTypeArray t n) =
     Inr (''Array<'' @ template_IdlType t @ ''; '' @ decimal n @ ''>'')"
| "formatIdlType IdlTypeOther = Inl (Error ''Unknown IDL type: [object Object]'')"

text \<open>
  In \<^verbatim>\<open>formatIdlDataDefined\<close> the fields of an enum value are looked up with
  \<^verbatim>\<open>variants[variant]?.filter((v) => v.name === f)[0]\<close>, where \<^verbatim>\<open>variants\<close> is the array of
  the variants and \<^verbatim>\<open>variant\<close> the first key of the value. An array read at a string is
  \<^verbatim>\<open>undefined\<close>, and then so is the whole expression, unless the string is one of the
  array's indices or the name of a member that arrays have; what is found then is a
  variant, a number or a function, none of which has a \<^verbatim>\<open>filter\<close> to call, so the call
  throws a \<^verbatim>\<open>TypeError\<close>. The expression never yields a field. The member names are
  those of ECMAScript 2023; which error it is (the \<^verbatim>\<open>TypeError\<close>, or the \<^verbatim>\<open>Error\<close> that
  the caller throws on \<^verbatim>\<open>undefined\<close>) depends on them, that it is one does not.
\<close>

definition variants_filter_first :: "IdlEnumVariant list \<Rightarrow> string \<Rightarrow> string \<Rightarrow> error + IdlField option" where
  "variants_filter_first variants variant f =
     (if array_index variant (length variants) = None \<and> variant \<notin> set ARRAY_MEMBER_NAMES
      then Inr None
      else Inl TypeError)"

text \<open>\<^verbatim>\<open>formatIdlData\<close> and \<^verbatim>\<open>formatIdlDataDefined\<close>. The vector case calls
  \<^verbatim>\<open>formatIdlData\<close> with two arguments, so \<^verbatim>\<open>types\<close> is \<^verbatim>\<open>undefined\<close> (\<open>None\<close>) there.\<close>

function formatIdlData :: "externals \<Rightarrow> IdlField \<Rightarrow> jsval \<Rightarrow> IdlTypeDef list option \<Rightarrow> error + string"
  and formatIdlDataDefined :: "externals \<Rightarrow> IdlTypeDef \<Rightarrow> jsval \<Rightarrow> IdlTypeDef list \<Rightarrow> error + string" where
  "formatIdlData E idlField data types =
     (case field_type idlField of
        IdlTypePrim p \<Rightarrow> js_toString data
      | IdlTypeVec t \<Rightarrow>
          (case data of
             JArr ds \<Rightarrow>
               (case map_errors (\<lambda>d. formatIdlData E \<lparr>field_name = [], field_type = t\<rparr> d None) ds of
                  Inl e \<Rightarrow> Inl e
                | Inr ss \<Rightarrow> Inr (''['' @ join_with '', '' ss @ '']''))
           | _ \<Rightarrow> Inl TypeError)
      | IdlTypeOption t \<Rightarrow>
          (if data = JNull then Inr ''null''
           else formatIdlData E \<lparr>field_name = [], field_type = t\<rparr> data types)
      | IdlTypeDefined n \<Rightarrow>
          (case types of
             None \<Rightarrow> Inl (Error ''User defined types not provided'')
           | Some tys \<Rightarrow>
               (case filter (\<lambda>t. typedef_name t = n) tys of
                  [t0] \<Rightarrow> formatIdlDataDefined E t0 data tys
                | _ \<Rightarrow> Inl (Error (''Type not found: '' @ n))))
      | _ \<Rightarrow> Inr ''unknown'')"
| "formatIdlDataDefined E typeDef data types =
     (case typedef_type typeDef of
        IdlTyStruct sfields \<Rightarrow>
          (case object_keys data of
             Inl e \<Rightarrow> Inl e
           | Inr ks \<Rightarrow>
               (case map_errors
                       (\<lambda>k. case filter (\<lambda>f. field_name f = k) sfields of
                              [] \<Rightarrow> Inl (Error ''Unable to find type'')
                            | f # _ \<Rightarrow>
                                (case js_member data k of
                                   Inl e \<Rightarrow> Inl e
                                 | Inr v \<Rightarrow>
                                     (case formatIdlData E f v (Some types) of
                                        Inl e \<Rightarrow> Inl e
                                      | Inr s \<Rightarrow> Inr (k @ '': '' @ s))))
                       ks of
                  Inl e \<Rightarrow> Inl e
                | Inr fs \<Rightarrow> Inr (''{ '' @ join_with '', '' fs @ '' }'')))
      | IdlTyEnum variants \<Rightarrow>
          (if variants = [] then Inr ''{}''
           else if variant_name (hd variants) \<noteq> []
           then (case object_keys data of
                   Inl e \<Rightarrow> Inl e
                 | Inr [] \<Rightarrow> Inl TypeError
                 | Inr (variant # _) \<Rightarrow>
                     (case js_member data variant of
                        Inl e \<Rightarrow> Inl e
                      | Inr enumType \<Rightarrow>
                          (case object_keys enumType of
                             Inl e \<Rightarrow> Inl e
                           | Inr fks \<Rightarrow>
                               (case map_errors
                                       (\<lambda>f. case js_member enumType f of
                                              Inl e \<Rightarrow> Inl e
                                            | Inr fieldData \<Rightarrow>
                                                (case variants_filter_first variants variant f of
                                                   Inl e \<Rightarrow> Inl e
                                                 | Inr None \<Rightarrow> Inl (Error ''Unable to find variant'')
                                                 | Inr (Some idlField) \<Rightarrow>
                                                     (case formatIdlData E idlField fieldData (Some types) of
                                                        Inl e \<Rightarrow> Inl e
                                                      | Inr s \<Rightarrow> Inr (f @ '': '' @ s))))
                                       fks of
                                  Inl e \<Rightarrow> Inl e
                                | Inr fs \<Rightarrow>
                                    (let namedFields = join_with '', '' fs;
                                         variantName = pascalCase E variant
                                     in if length namedFields = 0 then Inr variantName
                                        else Inr (variantName @ '' { '' @ namedFields @ '' }''))))))
           else Inr ''Tuple formatting not yet implemented''))"
  by pat_completeness auto

text \<open>Both functions end: a call on a member of the value is on a smaller value, a call
  on the same value is on a smaller type or goes from the field to its definition.\<close>

lemma index_of_less: "x \<in> set xs \<Longrightarrow> index_of x xs < length xs"
  by (induction xs) auto

lemma array_index_less: "array_index k n = Some i \<Longrightarrow> i < n"
  using index_of_less [of k "map decimal [0..<n]"]
  by (simp add: array_index_def Let_def split: if_splits)

lemma variants_filter_first_not_Some [simp]:
  "variants_filter_first variants variant f \<noteq> Inr (Some x)"
  by (simp add: variants_filter_first_def)

lemma size_object_get:
  "size (object_get kvs k) < Suc (size_list (size_prod (\<lambda>x. 0) size) kvs)"
proof (cases "map_of kvs k")
  case None
  then show ?thesis by (simp add: object_get_def)
next
  case (Some v)
  then have "(k, v) \<in> set kvs" by (rule map_of_SomeD)
  then have "size v \<le> size_list (size_prod (\<lambda>x. 0) size) kvs"
    by (rule size_list_estimation') simp
  with Some show ?thesis by (simp add: object_get_def)
qed

lemma js_member_size_less:
  "object_keys data = Inr ks \<Longrightarrow> k \<in> set ks \<Longrightarrow> js_member data k = Inr v \<Longrightarrow> size v < size data"
proof (cases data)
  case (JArr vs)
  assume m: "js_member data k = Inr v"
  show ?thesis
  proof (cases "array_index k (length vs)")
    case None
    with m JArr show ?thesis by (auto simp: inherited_member_def split: if_splits)
  next
    case (Some i)
    then have "i < length vs" by (rule array_index_less)
    then have "vs ! i \<in> set vs" by simp
    then have "size (vs ! i) \<le> size_list size vs" by (rule size_list_estimation') simp
    with m JArr Some show ?thesis by simp
  qed
next
  case (JObj kvs)
  assume "js_member data k = Inr v"
  with JObj size_object_get [of kvs k] show ?thesis
    by (auto simp: inherited_member_def split: if_splits)
qed (auto simp: inherited_member_def split: if_splits)

termination formatIdlData
  apply (relation "inv_image (less_than <*lex*> less_than)
           (\<lambda>x. case x of Inl (E, f, d, t) \<Rightarrow> (size d, Suc (size (field_type f)))
                        | Inr (E, td, d, t) \<Rightarrow> (size d, 0))")
  subgoal by (intro wf_inv_image wf_lex_prod wf_less_than)
  subgoal for E idlField data types t ds d
    using size_list_estimation' [of d ds "size d" size] by simp
  subgoal by simp
  subgoal by simp
  subgoal by (simp add: js_member_size_less)
  subgoal by simp
  done

declare formatIdlData.simps [simp del] formatIdlDataDefined.simps [simp del]

text \<open>\<^verbatim>\<open>sentenceCase\<close>: a space before every letter \<^verbatim>\<open>A\<close> to \<^verbatim>\<open>Z\<close>, then the first character
  in upper case. Names are ASCII identifiers; \<open>ascii_upper\<close> leaves every other
  character as it is.\<close>

definition ascii_upper :: "char \<Rightarrow> char" where
  "ascii_upper c =
     (if c \<in> set ''abcdefghijklmnopqrstuvwxyz''
      then ''ABCDEFGHIJKLMNOPQRSTUVWXYZ'' ! index_of c ''abcdefghijklmnopqrstuvwxyz''
      else c)"

definition is_upper :: "char \<Rightarrow> bool" where
  "is_upper c = (c \<in> set ''ABCDEFGHIJKLMNOPQRSTUVWXYZ'')"

definition sentenceCase :: "string \<Rightarrow> string" where
  "sentenceCase field =
     (let result = concat (map (\<lambda>c. if is_upper c then [CHR '' '', c] else [c]) field)
      in case result of [] \<Rightarrow> [] | c # cs \<Rightarrow> ascii_upper c # cs)"

text \<open>\<^verbatim>\<open>flattenIdlAccounts\<close>. The optional \<^verbatim>\<open>prefix\<close> is tested for truth: \<^verbatim>\<open>undefined\<close> and
  the empty string both count as no prefix.\<close>

definition truthy_string :: "string option \<Rightarrow> bool" where
  "truthy_string s = (case s of None \<Rightarrow> False | Some x \<Rightarrow> x \<noteq> [])"

definition prefixed_name :: "string option \<Rightarrow> string \<Rightarrow> string" where
  "prefixed_name prefix accName =
     (if truthy_string prefix then the prefix @ '' > '' @ accName else accName)"

fun flattenIdlAccounts :: "IdlAccountItem list \<Rightarrow> string option \<Rightarrow> IdlAccount list" where
  "flattenIdlAccounts accounts prefix =
     concat (map (\<lambda>account.
        case account of
          IdlAccounts name sub \<Rightarrow>
            (let accName = sentenceCase name;
                 newPrefix = prefixed_name prefix accName
             in flattenIdlAccounts sub (Some newPrefix))
        | IdlAccountLeaf a \<Rightarrow>
            (let accName = sentenceCase (account_name a)
             in [a\<lparr>account_name := prefixed_name prefix accName\<rparr>]))
      accounts)"

declare flattenIdlAccounts.simps [simp del]

text \<open>\<^verbatim>\<open>format\<close>, with the runtime account metadata and what is displayed.\<close>

record AccountMeta =
  meta_pubkey :: Buffer
  meta_isSigner :: bool
  meta_isWritable :: bool

record DisplayArg =
  arg_name :: string
  arg_type :: string
  arg_data :: string

record DisplayAccount =
  display_name :: "string option"
  display_pubkey :: Buffer
  display_isSigner :: bool
  display_isWritable :: bool

record InstructionDisplay =
  display_args :: "DisplayArg list"
  display_accounts :: "DisplayAccount list"

definition format :: "externals \<Rightarrow> Instruction \<Rightarrow> AccountMeta list \<Rightarrow> Idl \<Rightarrow> error + InstructionDisplay option" where
  "format E ix accountMetas idl =
     (case filter (\<lambda>i. inst_name ix = ix_name i) (idl_instructions idl) of
        [] \<Rightarrow> Inr None
      | idlIx # _ \<Rightarrow>
          (case map_errors
                  (\<lambda>idlField.
                     case formatIdlType (field_type idlField) of
                       Inl e \<Rightarrow> Inl e
                     | Inr ty \<Rightarrow>
                         (case js_member (inst_data ix) (field_name idlField) of
                            Inl e \<Rightarrow> Inl e
                          | Inr d \<Rightarrow>
                              (case formatIdlData E idlField d (idl_types idl) of
                                 Inl e \<Rightarrow> Inl e
                               | Inr s \<Rightarrow>
                                   Inr \<lparr>arg_name = field_name idlField, arg_type = ty, arg_data = s\<rparr>)))
                  (ix_args idlIx) of
             Inl e \<Rightarrow> Inl e
           | Inr args \<Rightarrow>
               (let flatIdlAccounts = flattenIdlAccounts (ix_accounts idlIx) None;
                    accounts =
                      map (\<lambda>(idx, meta).
                             if idx < length flatIdlAccounts
                             then \<lparr>display_name = Some (account_name (flatIdlAccounts ! idx)),
                                   display_pubkey = meta_pubkey meta,
                                   display_isSigner = meta_isSigner meta,
                                   display_isWritable = meta_isWritable meta\<rparr>
                             else \<lparr>display_name = None,
                                   display_pubkey = meta_pubkey meta,
                                   display_isSigner = meta_isSigner meta,
                                   display_isWritable = meta_isWritable meta\<rparr>)
                          (enumerate 0 accountMetas)
                in Inr (Some \<lparr>display_args = args, display_accounts = accounts\<rparr>))))"

subsection \<open>The claims' own words\<close>

text \<open>The label of a type as the specification words it, every element type by the
  same rule. A type of no listed kind has none.\<close>

fun type_label :: "IdlType \<Rightarrow> string option" where
  "type_label (IdlTypePrim s) = Some s"
| "type_label (IdlTypeVec t) = map_option (\<lambda>s. ''Vec<'' @ s @ ''>'') (type_label t)"
| "type_label (IdlTypeOption t) = map_option (\<lambda>s. ''Option<'' @ s @ ''>'') (type_label t)"
| "type_label (IdlTypeDefined n) = Some n"
| "type_label (IdlTypeArray t n) =
     map_option (\<lambda>s. ''Array<'' @ s @ ''; '' @ decimal n @ ''>'') (type_label t)"
| "type_label IdlTypeOther = None"

text \<open>The leaves of an account tree, depth first and in declared order, each with the
  names on its path: those of the groups around it, outermost first, then its own.\<close>

fun leaf_paths :: "IdlAccountItem list \<Rightarrow> string list \<Rightarrow> (string list \<times> IdlAccount) list" where
  "leaf_paths [] ancestors = []"
| "leaf_paths (IdlAccountLeaf a # rest) ancestors =
     (ancestors @ [account_name a], a) # leaf_paths rest ancestors"
| "leaf_paths (IdlAccounts name sub # rest) ancestors =
     leaf_paths sub (ancestors @ [name]) @ leaf_paths rest ancestors"

text \<open>
  A segment as spaced, capitalized words: the segment is cut in front of each of its
  capital letters, the first piece gets a capital as its first letter, and the pieces
  are put together with one space between them. The capital letters are the characters
  from \<^verbatim>\<open>A\<close> (code 65) to \<^verbatim>\<open>Z\<close> (code 90); the capital of a letter from \<^verbatim>\<open>a\<close> (97) to \<^verbatim>\<open>z\<close> (122)
  is the character 32 codes below it. A segment that begins with a capital letter has the
  empty piece in front of that letter, hence a space as its first character.
\<close>

definition is_capital :: "char \<Rightarrow> bool" where
  "is_capital c = (65 \<le> (of_char c :: nat) \<and> (of_char c :: nat) \<le> 90)"

definition capital_of :: "char \<Rightarrow> char" where
  "capital_of c =
     (if 97 \<le> (of_char c :: nat) \<and> (of_char c :: nat) \<le> 122
      then char_of (of_char c - 32 :: nat) else c)"

fun cut_at_capitals :: "string \<Rightarrow> string list" where
  "cut_at_capitals [] = [[]]"
| "cut_at_capitals (c # cs) =
     (let pieces = cut_at_capitals cs
      in if is_capital c then [] # (c # hd pieces) # tl pieces else (c # hd pieces) # tl pieces)"

definition capitalized :: "string \<Rightarrow> string" where
  "capitalized w = (case w of [] \<Rightarrow> [] | c # cs \<Rightarrow> capital_of c # cs)"

definition spaced_words :: "string \<Rightarrow> string" where
  "spaced_words s =
     (let pieces = cut_at_capitals s in join_with '' '' (capitalized (hd pieces) # tl pieces))"

text \<open>The display name of a path: its segments, each as spaced words, joined.\<close>

definition display_path :: "string list \<Rightarrow> string" where
  "display_path path = join_with '' > '' (map spaced_words path)"

text \<open>Names and metadata zipped by position; the metadata past the names get none.\<close>

definition zip_names :: "string list \<Rightarrow> AccountMeta list \<Rightarrow> DisplayAccount list" where
  "zip_names names metas =
     map (\<lambda>(n, meta). \<lparr>display_name = Some n, display_pubkey = meta_pubkey meta,
                        display_isSigner = meta_isSigner meta,
                        display_isWritable = meta_isWritable meta\<rparr>)
         (zip names metas) @
     map (\<lambda>meta. \<lparr>display_name = None, display_pubkey = meta_pubkey meta,
                   display_isSigner = meta_isSigner meta,
                   display_isWritable = meta_isWritable meta\<rparr>)
         (drop (length names) metas)"

text \<open>No group at the top of the tree has the empty name.\<close>

definition top_groups_named :: "IdlAccountItem list \<Rightarrow> bool" where
  "top_groups_named accounts =
     list_all (\<lambda>item. case item of IdlAccounts name sub \<Rightarrow> name \<noteq> [] | IdlAccountLeaf a \<Rightarrow> True) accounts"

text \<open>The names of the schema's instructions are in the casing that \<^verbatim>\<open>camelCase\<close> gives,
  and no two instructions share one.\<close>

definition canonical_names :: "externals \<Rightarrow> Idl \<Rightarrow> bool" where
  "canonical_names E idl =
     (list_all (\<lambda>ix. camelCase E (ix_name ix) = ix_name ix) (idl_instructions idl) \<and>
      distinct (map ix_name (idl_instructions idl)))"

subsection \<open>Instances of the imported functions\<close>

text \<open>
  The theorems below hold for every choice of the imported functions that meets their
  hypotheses. To run the coder on a concrete schema the parameters are instantiated:
  Base58 as the \<^verbatim>\<open>bs58\<close> package computes it, and simple instances of the others that
  are exact on the inputs of the examples.
\<close>

definition BASE58_ALPHABET :: string where
  "BASE58_ALPHABET = ''123456789ABCDEFGHJKLMNPQRSTUVWXYZabcdefghijkmnopqrstuvwxyz''"

text \<open>The big-endian number of a byte sequence, and its digits to the base 58, most
  significant first (none for 0).\<close>

definition nat_of_bytes :: "Buffer \<Rightarrow> nat" where
  "nat_of_bytes bs = foldl (\<lambda>acc b. acc * 256 + unat b) 0 bs"

fun digits58 :: "nat \<Rightarrow> nat list" where
  "digits58 n = (if n = 0 then [] else digits58 (n div 58) @ [n mod 58])"

declare digits58.simps [simp del]

fun bytes_of_nat :: "nat \<Rightarrow> Buffer" where
  "bytes_of_nat n = (if n = 0 then [] else bytes_of_nat (n div 256) @ [of_nat (n mod 256)])"

declare bytes_of_nat.simps [simp del]

text \<open>\<^verbatim>\<open>bs58.encode\<close>: a \<^verbatim>\<open>1\<close> for every leading zero byte, then the digits of the rest.\<close>

definition base58_encode :: "Buffer \<Rightarrow> string" where
  "base58_encode bs =
     replicate (length (takeWhile (\<lambda>b. b = 0) bs)) (CHR ''1'') @
     map (\<lambda>d. BASE58_ALPHABET ! d) (digits58 (nat_of_bytes (dropWhile (\<lambda>b. b = 0) bs)))"

text \<open>\<^verbatim>\<open>bs58.decode\<close>: throws on a character outside the alphabet.\<close>

definition base58_decode :: "string \<Rightarrow> error + Buffer" where
  "base58_decode s =
     (if list_all (\<lambda>c. c \<in> set BASE58_ALPHABET) s
      then Inr (replicate (length (takeWhile (\<lambda>c. c = CHR ''1'') s)) 0 @
                bytes_of_nat (foldl (\<lambda>acc c. acc * 58 + index_of c BASE58_ALPHABET) 0
                                (dropWhile (\<lambda>c. c = CHR ''1'') s)))
      else Inl (Error ''Non-base58 character''))"

text \<open>\<^verbatim>\<open>Buffer.from(text, "hex")\<close>: pairs of hexadecimal digits, up to the first pair that
  is not one.\<close>

definition hex_digit :: "char \<Rightarrow> nat option" where
  "hex_digit c =
     (if c \<in> set ''0123456789'' then Some (index_of c ''0123456789'')
      else if c \<in> set ''abcdef'' then Some (10 + index_of c ''abcdef'')
      else if c \<in> set ''ABCDEF'' then Some (10 + index_of c ''ABCDEF'')
      else None)"

fun hex_to_bytes :: "string \<Rightarrow> Buffer" where
  "hex_to_bytes (a # b # rest) =
     (case (hex_digit a, hex_digit b) of
        (Some h, Some l) \<Rightarrow> of_nat (16 * h + l) # hex_to_bytes rest
      | _ \<Rightarrow> [])"
| "hex_to_bytes _ = []"

text \<open>
  On a name made of lower-case ASCII letters only, \<^verbatim>\<open>camelCase\<close> and \<^verbatim>\<open>snakeCase\<close> return
  the name and \<^verbatim>\<open>camelCase\<close> with \<^verbatim>\<open>pascalCase: true\<close> puts its first letter in upper case.
  The instances do just that; the examples that run with them use such names only.
\<close>

definition lower_word_camelCase :: "string \<Rightarrow> string" where
  "lower_word_camelCase s = s"

definition lower_word_snakeCase :: "string \<Rightarrow> string" where
  "lower_word_snakeCase s = s"

definition lower_word_pascalCase :: "string \<Rightarrow> string" where
  "lower_word_pascalCase s = (case s of [] \<Rightarrow> [] | c # cs \<Rightarrow> ascii_upper c # cs)"

text \<open>
  A stand-in for the digest, of the right length (32 bytes): the bytes of the text,
  cut or padded with zeros. It is not SHA-256; it only lets a schema whose instructions
  carry no explicit discriminant be run.
\<close>

definition standin_digest :: "string \<Rightarrow> Buffer" where
  "standin_digest s = take 32 (map (\<lambda>c. of_nat (of_char c)) s @ replicate 32 0)"

text \<open>
  Modelled from the spec: \<^verbatim>\<open>IdlCoder.fieldLayout\<close> (\<^verbatim>\<open>./idl.js\<close>) and the layouts of the
  Borsh library are not among the sources. The instance below follows the rules that the
  specification gives for its type resolver. A \<open>shape\<close> is what a type reference resolves
  to: an integer of a number of bytes, signed or not, a boolean, a string, a vector, an
  option, an array of a fixed length, a struct with its fields in declared order, or an
  enum with the key and the payload of each variant in declared order.
\<close>

datatype shape =
    SInt bool nat
  | SBool
  | SString
  | SVec shape
  | SOption shape
  | SArray shape nat
  | SStruct "(string \<times> shape) list"
  | SEnum "(string \<times> shape) list"

text \<open>Modelled from the spec: the primitive types whose values the model holds. The
  floating-point numbers, the byte strings and the public keys are left out.\<close>

definition primitive_shape :: "string \<Rightarrow> shape option" where
  "primitive_shape p =
     map_of [(''bool'', SBool), (''string'', SString),
             (''u8'', SInt False 1), (''i8'', SInt True 1),
             (''u16'', SInt False 2), (''i16'', SInt True 2),
             (''u32'', SInt False 4), (''i32'', SInt True 4),
             (''u64'', SInt False 8), (''i64'', SInt True 8),
             (''u128'', SInt False 16), (''i128'', SInt True 16)] p"

text \<open>
  Modelled from the spec: \<^verbatim>\<open>resolve(typeRef, context)\<close>. A defined type is looked up in the
  table and expanded on the spot: a struct into its fields, an enum into its variants, a
  variant without fields having the empty struct as its payload and one with named
  fields the struct of them. The key of a variant in a value is its name in camel case
  (\<open>cc\<close>), which is what the formatter turns back into upper camel case. A name that the
  table lacks is the error of an unresolved type. The expansion goes \<open>n\<close> defined types deep: the source expands
  without a bound and does not return on a type that contains itself, so a schema that
  needs more depth than \<open>n\<close> gets no layout here. A primitive type that is left out, a
  variant with unnamed fields and a type of no known kind get none either.
\<close>

fun resolve :: "(string \<Rightarrow> string) \<Rightarrow> nat \<Rightarrow> IdlTypeDef list \<Rightarrow> IdlType \<Rightarrow> error + shape" where
  "resolve cc n tys (IdlTypePrim p) =
     (case primitive_shape p of Some s \<Rightarrow> Inr s | None \<Rightarrow> Inl NotModelled)"
| "resolve cc n tys (IdlTypeVec t) =
     (case resolve cc n tys t of Inl e \<Rightarrow> Inl e | Inr s \<Rightarrow> Inr (SVec s))"
| "resolve cc n tys (IdlTypeOption t) =
     (case resolve cc n tys t of Inl e \<Rightarrow> Inl e | Inr s \<Rightarrow> Inr (SOption s))"
| "resolve cc n tys (IdlTypeArray t len) =
     (case resolve cc n tys t of Inl e \<Rightarrow> Inl e | Inr s \<Rightarrow> Inr (SArray s len))"
| "resolve cc n tys (IdlTypeDefined name) =
     (case n of
        0 \<Rightarrow> Inl NotModelled
      | Suc m \<Rightarrow>
          (case filter (\<lambda>t. typedef_name t = name) tys of
             [] \<Rightarrow> Inl (Error ''unresolved type'')
           | typeDef # _ \<Rightarrow>
               (case typedef_type typeDef of
                  IdlTyStruct sfields \<Rightarrow>
                    (case map_errors
                            (\<lambda>f. case resolve cc m tys (field_type f) of
                                   Inl e \<Rightarrow> Inl e
                                 | Inr s \<Rightarrow> Inr (field_name f, s))
                            sfields of
                       Inl e \<Rightarrow> Inl e
                     | Inr ss \<Rightarrow> Inr (SStruct ss))
                | IdlTyEnum variants \<Rightarrow>
                    (case map_errors
                            (\<lambda>v. case variant_fields v of
                                   None \<Rightarrow> Inr (cc (variant_name v), SStruct [])
                                 | Some (IdlNamedFields vfields) \<Rightarrow>
                                     (case map_errors
                                             (\<lambda>f. case resolve cc m tys (field_type f) of
                                                    Inl e \<Rightarrow> Inl e
                                                  | Inr s \<Rightarrow> Inr (field_name f, s))
                                             vfields of
                                        Inl e \<Rightarrow> Inl e
                                      | Inr ss \<Rightarrow> Inr (cc (variant_name v), SStruct ss))
                                 | Some (IdlTupleFields ts) \<Rightarrow> Inl NotModelled)
                            variants of
                       Inl e \<Rightarrow> Inl e
                     | Inr vs \<Rightarrow> Inr (SEnum vs)))))"
| "resolve cc n tys IdlTypeOther = Inl NotModelled"

text \<open>
  Modelled from the spec: the bytes of an integer, the least significant first, and the
  number that bytes stand for; an integer of \<open>k\<close> bytes is in range when it fits them,
  in two's complement when the type is signed. The layouts give a number for an integer
  of up to 32 bits and a big integer object for a wider one.
\<close>

fun le_bytes :: "nat \<Rightarrow> nat \<Rightarrow> Buffer" where
  "le_bytes 0 n = []"
| "le_bytes (Suc k) n = of_nat (n mod 256) # le_bytes k (n div 256)"

fun le_value :: "Buffer \<Rightarrow> nat" where
  "le_value [] = 0"
| "le_value (b # bs) = unat b + 256 * le_value bs"

definition int_in_range :: "bool \<Rightarrow> nat \<Rightarrow> int \<Rightarrow> bool" where
  "int_in_range sg k n =
     (if sg then - (256 ^ k div 2) \<le> n \<and> n < 256 ^ k div 2 else 0 \<le> n \<and> n < 256 ^ k)"

definition int_value :: "nat \<Rightarrow> int \<Rightarrow> jsval" where
  "int_value k n = (if k \<le> 4 then JNum n else JBig n)"

definition value_int :: "nat \<Rightarrow> jsval \<Rightarrow> int option" where
  "value_int k v =
     (case v of
        JNum n \<Rightarrow> if k \<le> 4 then Some n else None
      | JBig n \<Rightarrow> if k \<le> 4 then None else Some n
      | _ \<Rightarrow> None)"

definition int_of_le :: "bool \<Rightarrow> nat \<Rightarrow> Buffer \<Rightarrow> int" where
  "int_of_le sg k bs =
     (let u = int (le_value bs) in if sg \<and> 256 ^ k div 2 \<le> u then u - 256 ^ k else u)"

text \<open>What a layout throws on a value that is not of its type.\<close>

definition mismatch :: "error + 'a" where
  "mismatch = Inl (LayoutError ''value does not match type'')"

lemma size_shape_member:
  "(k, s) \<in> set vs \<Longrightarrow> size s < Suc (size_list (size_prod (\<lambda>x. 0) size) vs)"
  using size_list_estimation' [of "(k, s)" vs "size s" "size_prod (\<lambda>x. 0) size"] by simp

text \<open>
  Modelled from the spec: what a layout writes. A string is the count of its bytes as an
  unsigned 32-bit integer and the bytes; a vector is the count of its elements as an
  unsigned 32-bit integer and the elements; an option is the byte 0 for \<^verbatim>\<open>null\<close>, or the
  byte 1 and the value; an array is its elements back to back; a struct is its fields in
  declared order, each read from the object under its name; an enum value is an object
  with one key, written as the index of the variant with that key, in one byte, and the
  payload.
\<close>

function (sequential) shape_encode :: "shape \<Rightarrow> jsval \<Rightarrow> error + Buffer" where
  "shape_encode (SInt sg k) v =
     (case value_int k v of
        Some n \<Rightarrow> if int_in_range sg k n then Inr (le_bytes k (nat (n mod 256 ^ k))) else mismatch
      | None \<Rightarrow> mismatch)"
| "shape_encode SBool v = (case v of JBool b \<Rightarrow> Inr [if b then 1 else 0] | _ \<Rightarrow> mismatch)"
| "shape_encode SString v =
     (case v of
        JStr s \<Rightarrow>
          if length s < 2 ^ 32 then Inr (le_bytes 4 (length s) @ map (\<lambda>c. of_nat (of_char c)) s)
          else mismatch
      | _ \<Rightarrow> mismatch)"
| "shape_encode (SVec s) v =
     (case v of
        JArr vs \<Rightarrow>
          if length vs < 2 ^ 32
          then (case map_errors (shape_encode s) vs of
                  Inl e \<Rightarrow> Inl e
                | Inr bss \<Rightarrow> Inr (le_bytes 4 (length vs) @ concat bss))
          else mismatch
      | _ \<Rightarrow> mismatch)"
| "shape_encode (SOption s) v =
     (if v = JNull then Inr [0]
      else (case shape_encode s v of Inl e \<Rightarrow> Inl e | Inr bs \<Rightarrow> Inr (1 # bs)))"
| "shape_encode (SArray s n) v =
     (case v of
        JArr vs \<Rightarrow>
          if length vs = n
          then (case map_errors (shape_encode s) vs of Inl e \<Rightarrow> Inl e | Inr bss \<Rightarrow> Inr (concat bss))
          else mismatch
      | _ \<Rightarrow> mismatch)"
| "shape_encode (SStruct fs) v =
     (case v of
        JObj kvs \<Rightarrow>
          (case map_errors (\<lambda>(k, s). shape_encode s (object_get kvs k)) fs of
             Inl e \<Rightarrow> Inl e
           | Inr bss \<Rightarrow> Inr (concat bss))
      | _ \<Rightarrow> mismatch)"
| "shape_encode (SEnum vs) v =
     (case v of
        JObj [(k, payload)] \<Rightarrow>
          (case map_of vs k of
             Some s \<Rightarrow>
               if index_of k (map fst vs) < 256
               then (case shape_encode s payload of
                       Inl e \<Rightarrow> Inl e
                     | Inr bs \<Rightarrow> Inr (of_nat (index_of k (map fst vs)) # bs))
               else mismatch
           | None \<Rightarrow> mismatch)
      | _ \<Rightarrow> mismatch)"
  by pat_completeness auto

termination shape_encode
  apply (relation "measure (\<lambda>p. size (fst p))")
  apply simp_all
  subgoal for fs v kvs x k s by (rule size_shape_member [of k s fs]) simp
  subgoal for vs v kvs kv rest k payload s by (rule size_shape_member [of k s vs]) (rule map_of_SomeD)
  done

text \<open>Modelled from the spec: a number of values, and the fields of a struct, read one
  after the other, each from where the one before it ended.\<close>

fun decode_seq :: "(Buffer \<Rightarrow> error + jsval \<times> Buffer) \<Rightarrow> nat \<Rightarrow> Buffer \<Rightarrow> error + jsval list \<times> Buffer" where
  "decode_seq f 0 b = Inr ([], b)"
| "decode_seq f (Suc n) b =
     (case f b of
        Inl e \<Rightarrow> Inl e
      | Inr (v, b') \<Rightarrow>
          (case decode_seq f n b' of Inl e \<Rightarrow> Inl e | Inr (vs, b'') \<Rightarrow> Inr (v # vs, b'')))"

fun decode_fields :: "('s \<Rightarrow> Buffer \<Rightarrow> error + jsval \<times> Buffer) \<Rightarrow> (string \<times> 's) list \<Rightarrow> Buffer \<Rightarrow>
    error + (string \<times> jsval) list \<times> Buffer" where
  "decode_fields f [] b = Inr ([], b)"
| "decode_fields f ((k, s) # fs) b =
     (case f s b of
        Inl e \<Rightarrow> Inl e
      | Inr (v, b') \<Rightarrow>
          (case decode_fields f fs b' of
             Inl e \<Rightarrow> Inl e
           | Inr (kvs, b'') \<Rightarrow> Inr ((k, v) # kvs, b'')))"

lemma decode_fields_cong [fundef_cong]:
  "fs = fs' \<Longrightarrow> b = b' \<Longrightarrow> (\<And>k s b. (k, s) \<in> set fs' \<Longrightarrow> f s b = g s b) \<Longrightarrow>
   decode_fields f fs b = decode_fields g fs' b'"
proof -
  assume eq: "fs = fs'" "b = b'" and fg: "\<And>k s b. (k, s) \<in> set fs' \<Longrightarrow> f s b = g s b"
  from fg have "decode_fields f fs' b' = decode_fields g fs' b'"
  proof (induction fs' arbitrary: b')
    case Nil
    show ?case by simp
  next
    case (Cons x fs')
    obtain k s where x: "x = (k, s)" by (cases x)
    have h: "f s b' = g s b'" by (rule Cons.prems [of k]) (simp add: x)
    have t: "decode_fields f fs' c = decode_fields g fs' c" for c
    proof (rule Cons.IH)
      fix k' s' b
      assume "(k', s') \<in> set fs'"
      then show "f s' b = g s' b" using Cons.prems [of k' s' b] by simp
    qed
    show ?case by (simp add: x h t split: sum.splits)
  qed
  with eq show ?thesis by simp
qed

text \<open>
  Modelled from the spec: what a layout reads, the value and the bytes after it. Bytes
  that end before the value does are a \<open>RangeError\<close>; the byte of a boolean or of an option
  that is neither 0 nor 1 and the index of no variant are errors of the layout. On the
  byte 0 an option reads nothing more.
\<close>

function (sequential) shape_decode :: "shape \<Rightarrow> Buffer \<Rightarrow> error + jsval \<times> Buffer" where
  "shape_decode (SInt sg k) b =
     (if length b < k then Inl RangeError
      else Inr (int_value k (int_of_le sg k (take k b)), drop k b))"
| "shape_decode SBool b =
     (case b of
        [] \<Rightarrow> Inl RangeError
      | x # rest \<Rightarrow>
          if x = 0 then Inr (JBool False, rest)
          else if x = 1 then Inr (JBool True, rest)
          else Inl (LayoutError ''invalid bytes''))"
| "shape_decode SString b =
     (if length b < 4 then Inl RangeError
      else let n = le_value (take 4 b) in
        if length b < 4 + n then Inl RangeError
        else Inr (JStr (map (\<lambda>x. char_of (unat x)) (take n (drop 4 b))), drop (4 + n) b))"
| "shape_decode (SVec s) b =
     (if length b < 4 then Inl RangeError
      else (case decode_seq (shape_decode s) (le_value (take 4 b)) (drop 4 b) of
              Inl e \<Rightarrow> Inl e
            | Inr (vs, rest) \<Rightarrow> Inr (JArr vs, rest)))"
| "shape_decode (SOption s) b =
     (case b of
        [] \<Rightarrow> Inl RangeError
      | x # rest \<Rightarrow>
          if x = 0 then Inr (JNull, rest)
          else if x = 1 then shape_decode s rest
          else Inl (LayoutError ''invalid bytes''))"
| "shape_decode (SArray s n) b =
     (case decode_seq (shape_decode s) n b of
        Inl e \<Rightarrow> Inl e
      | Inr (vs, rest) \<Rightarrow> Inr (JArr vs, rest))"
| "shape_decode (SStruct fs) b =
     (case decode_fields (\<lambda>s b. shape_decode s b) fs b of
        Inl e \<Rightarrow> Inl e
      | Inr (kvs, rest) \<Rightarrow> Inr (JObj kvs, rest))"
| "shape_decode (SEnum vs) b =
     (case b of
        [] \<Rightarrow> Inl RangeError
      | x # rest \<Rightarrow>
          if unat x < length vs
          then (case vs ! unat x of
                  (k, s) \<Rightarrow>
                    (case shape_decode s rest of
                       Inl e \<Rightarrow> Inl e
                     | Inr (payload, rest') \<Rightarrow> Inr (JObj [(k, payload)], rest')))
          else Inl (LayoutError ''invalid variant index''))"
  by pat_completeness auto

termination shape_decode
  apply (relation "measure (\<lambda>p. size (fst p))")
  apply simp_all
  subgoal for fs k s by (rule size_shape_member)
  subgoal for vs b x rest k s by (rule size_shape_member [of k s vs]) simp
  done

text \<open>
  Modelled from the spec: a value that matches a shape. An integer is a number (a big
  integer object from 64 bits on) in the range of the type; a string and a vector are
  short enough for their count; an array has the declared length; \<^verbatim>\<open>null\<close> matches every
  option; an object matches a struct when its keys are the names of the fields, in their
  order and all different, and each member matches its field; an object with one key
  matches an enum when the key is that of one of the first 256 variants and the member
  matches its payload.
\<close>

function (sequential) matches :: "shape \<Rightarrow> jsval \<Rightarrow> bool" where
  "matches (SInt sg k) v = (case value_int k v of Some n \<Rightarrow> int_in_range sg k n | None \<Rightarrow> False)"
| "matches SBool v = (case v of JBool b \<Rightarrow> True | _ \<Rightarrow> False)"
| "matches SString v = (case v of JStr s \<Rightarrow> length s < 2 ^ 32 | _ \<Rightarrow> False)"
| "matches (SVec s) v =
     (case v of JArr vs \<Rightarrow> length vs < 2 ^ 32 \<and> list_all (matches s) vs | _ \<Rightarrow> False)"
| "matches (SOption s) v = (v = JNull \<or> matches s v)"
| "matches (SArray s n) v =
     (case v of JArr vs \<Rightarrow> length vs = n \<and> list_all (matches s) vs | _ \<Rightarrow> False)"
| "matches (SStruct fs) v =
     (case v of
        JObj kvs \<Rightarrow>
          map fst kvs = map fst fs \<and> distinct (map fst fs) \<and>
          list_all (\<lambda>(k, s). matches s (object_get kvs k)) fs
      | _ \<Rightarrow> False)"
| "matches (SEnum vs) v =
     (case v of
        JObj [(k, payload)] \<Rightarrow>
          (case map_of vs k of
             Some s \<Rightarrow> index_of k (map fst vs) < 256 \<and> matches s payload
           | None \<Rightarrow> False)
      | _ \<Rightarrow> False)"
  by pat_completeness auto

termination matches
  apply (relation "measure (\<lambda>p. size (fst p))")
  apply simp_all
  subgoal for fs v kvs x k s by (rule size_shape_member [of k s fs]) simp
  subgoal for vs v kvs kv rest k payload s by (rule size_shape_member [of k s vs]) (rule map_of_SomeD)
  done

declare shape_encode.simps [simp del] shape_decode.simps [simp del] matches.simps [simp del]

text \<open>
  Modelled from the spec: \<^verbatim>\<open>borsh.struct\<close> over the field layouts that
  \<^verbatim>\<open>IdlCoder.fieldLayout\<close> builds (neither is among the sources): the arguments of an
  instruction as a struct, and the layout of a shape. A layout reads its value from the
  start of the bytes and leaves what follows it alone. The name of the struct is not used.
\<close>

definition struct_shape :: "(string \<Rightarrow> string) \<Rightarrow> nat \<Rightarrow> IdlTypeDef list \<Rightarrow> IdlField list \<Rightarrow> error + shape" where
  "struct_shape cc n tys sfields =
     (case map_errors
             (\<lambda>f. case resolve cc n tys (field_type f) of
                    Inl e \<Rightarrow> Inl e
                  | Inr s \<Rightarrow> Inr (field_name f, s))
             sfields of
        Inl e \<Rightarrow> Inl e
      | Inr ss \<Rightarrow> Inr (SStruct ss))"

definition shape_layout :: "shape \<Rightarrow> Layout" where
  "shape_layout s =
     \<lparr>layout_encode = shape_encode s,
      layout_decode = (\<lambda>b. case shape_decode s b of Inl e \<Rightarrow> Inl e | Inr (v, rest) \<Rightarrow> Inr v)\<rparr>"

definition resolver_struct_layout :: "(string \<Rightarrow> string) \<Rightarrow> nat \<Rightarrow> IdlTypeDef list \<Rightarrow> IdlField list \<Rightarrow> string \<Rightarrow> error + Layout" where
  "resolver_struct_layout cc n tys args name =
     (case struct_shape cc n tys args of Inl e \<Rightarrow> Inl e | Inr s \<Rightarrow> Inr (shape_layout s))"

text \<open>The instances together; defined types are expanded 8 deep.\<close>

definition example_externals :: externals where
  "example_externals =
     \<lparr>bs58_encode = base58_encode,
      bs58_decode = base58_decode,
      hex_decode = hex_to_bytes,
      camelCase = lower_word_camelCase,
      pascalCase = lower_word_pascalCase,
      snakeCase = lower_word_snakeCase,
      sha256_digest = standin_digest,
      struct_layout = resolver_struct_layout lower_word_camelCase 8\<rparr>"

text \<open>
  On a name in snake case, lower-case ASCII words with an underscore between them,
  \<^verbatim>\<open>camelCase\<close> drops each underscore and puts the letter after it in upper case. With this
  instance a schema whose instructions are named in snake case can be run.
\<close>

fun snake_camelCase :: "string \<Rightarrow> string" where
  "snake_camelCase [] = []"
| "snake_camelCase (c # cs) =
     (if c = CHR ''_''
      then (case cs of [] \<Rightarrow> [] | d # ds \<Rightarrow> ascii_upper d # snake_camelCase ds)
      else c # snake_camelCase cs)"

definition snake_externals :: externals where
  "snake_externals =
     example_externals
       \<lparr>camelCase := snake_camelCase, struct_layout := resolver_struct_layout snake_camelCase 8\<rparr>"

subsection \<open>Example schemas and values\<close>

text \<open>Two instructions with explicit discriminators of two bytes; \<^verbatim>\<open>set\<close> takes one
  \<^verbatim>\<open>u8\<close>.\<close>

definition idl_set :: Idl where
  "idl_set =
     \<lparr>idl_instructions =
        [\<lparr>ix_name = ''set'', ix_accounts = [],
          ix_args = [\<lparr>field_name = ''value'', field_type = IdlTypePrim ''u8''\<rparr>],
          ix_discriminant = Some [1, 2]\<rparr>,
         \<lparr>ix_name = ''clear'', ix_accounts = [], ix_args = [], ix_discriminant = Some [3, 4]\<rparr>],
      idl_accounts = None, idl_types = None\<rparr>"

text \<open>One instruction with no explicit discriminator.\<close>

definition idl_initialize :: Idl where
  "idl_initialize =
     \<lparr>idl_instructions =
        [\<lparr>ix_name = ''initialize'', ix_accounts = [], ix_args = [], ix_discriminant = None\<rparr>],
      idl_accounts = None, idl_types = None\<rparr>"

text \<open>Two instructions whose explicit discriminators have 0 bytes and 1 byte.\<close>

definition idl_mixed_lengths :: Idl where
  "idl_mixed_lengths =
     \<lparr>idl_instructions =
        [\<lparr>ix_name = ''first'', ix_accounts = [], ix_args = [], ix_discriminant = Some []\<rparr>,
         \<lparr>ix_name = ''second'', ix_accounts = [], ix_args = [], ix_discriminant = Some [1]\<rparr>],
      idl_accounts = None, idl_types = None\<rparr>"

text \<open>An instruction with a name in snake case.\<close>

definition idl_set_value :: Idl where
  "idl_set_value =
     \<lparr>idl_instructions =
        [\<lparr>ix_name = ''set_value'', ix_accounts = [],
          ix_args = [\<lparr>field_name = ''value'', field_type = IdlTypePrim ''u8''\<rparr>],
          ix_discriminant = Some [1, 2]\<rparr>],
      idl_accounts = None, idl_types = None\<rparr>"




text \<open>An instruction that takes a vector of bytes, and a value for it with 1000 of them:
  its body is the count (4 bytes) and the 1000 bytes.\<close>

definition idl_store :: Idl where
  "idl_store =
     \<lparr>idl_instructions =
        [\<lparr>ix_name = ''store'', ix_accounts = [],
          ix_args = [\<lparr>field_name = ''data'', field_type = IdlTypeVec (IdlTypePrim ''u8'')\<rparr>],
          ix_discriminant = Some [1, 2, 3, 4, 5, 6, 7, 8]\<rparr>],
      idl_accounts = None, idl_types = None\<rparr>"

definition store_1000_bytes :: jsval where
  "store_1000_bytes = JObj [(''data'', JArr (replicate 1000 (JNum 0)))]"

text \<open>An account tree: the group \<^verbatim>\<open>authority\<close> with the accounts \<^verbatim>\<open>owner\<close> and \<^verbatim>\<open>payer\<close>,
  and the account \<^verbatim>\<open>systemProgram\<close> beside it; an instruction with these accounts, and
  four runtime accounts for it.\<close>

definition example_accounts :: "IdlAccountItem list" where
  "example_accounts =
     [IdlAccounts ''authority''
        [IdlAccountLeaf \<lparr>account_name = ''owner'', account_isMut = False, account_isSigner = True\<rparr>,
         IdlAccountLeaf \<lparr>account_name = ''payer'', account_isMut = True, account_isSigner = True\<rparr>],
      IdlAccountLeaf \<lparr>account_name = ''systemProgram'', account_isMut = False, account_isSigner = False\<rparr>]"

definition idl_transfer :: Idl where
  "idl_transfer =
     \<lparr>idl_instructions =
        [\<lparr>ix_name = ''transfer'', ix_accounts = example_accounts, ix_args = [], ix_discriminant = None\<rparr>],
      idl_accounts = None, idl_types = None\<rparr>"

text \<open>The same tree with the group named \<^verbatim>\<open>Authority\<close>, and a tree whose only group has the
  empty name.\<close>

definition idl_transfer_Authority :: Idl where
  "idl_transfer_Authority =
     \<lparr>idl_instructions =
        [\<lparr>ix_name = ''transfer'',
          ix_accounts =
            [IdlAccounts ''Authority''
               [IdlAccountLeaf \<lparr>account_name = ''owner'', account_isMut = False, account_isSigner = True\<rparr>,
                IdlAccountLeaf \<lparr>account_name = ''payer'', account_isMut = True, account_isSigner = True\<rparr>],
             IdlAccountLeaf \<lparr>account_name = ''systemProgram'', account_isMut = False, account_isSigner = False\<rparr>],
          ix_args = [], ix_discriminant = None\<rparr>],
      idl_accounts = None, idl_types = None\<rparr>"

definition idl_transfer_unnamed :: Idl where
  "idl_transfer_unnamed =
     \<lparr>idl_instructions =
        [\<lparr>ix_name = ''transfer'',
          ix_accounts =
            [IdlAccounts []
               [IdlAccountLeaf \<lparr>account_name = ''owner'', account_isMut = False, account_isSigner = True\<rparr>]],
          ix_args = [], ix_discriminant = None\<rparr>],
      idl_accounts = None, idl_types = None\<rparr>"

text \<open>The names in what \<^verbatim>\<open>format\<close> returns.\<close>

definition displayed_names :: "error + InstructionDisplay option \<Rightarrow> error + string option list option" where
  "displayed_names r = map_sum id (map_option (\<lambda>d. map display_name (display_accounts d))) r"

definition example_metas :: "AccountMeta list" where
  "example_metas =
     [\<lparr>meta_pubkey = [1], meta_isSigner = True, meta_isWritable = False\<rparr>,
      \<lparr>meta_pubkey = [2], meta_isSigner = True, meta_isWritable = True\<rparr>,
      \<lparr>meta_pubkey = [3], meta_isSigner = False, meta_isWritable = False\<rparr>,
      \<lparr>meta_pubkey = [4], meta_isSigner = False, meta_isWritable = True\<rparr>]"

text \<open>An enum with a variant without fields and one with a named field, and a struct.\<close>

definition status_types :: "IdlTypeDef list" where
  "status_types =
     [\<lparr>typedef_name = ''Status'',
       typedef_type = IdlTyEnum
         [\<lparr>variant_name = ''Idle'', variant_fields = None\<rparr>,
          \<lparr>variant_name = ''Running'',
            variant_fields = Some (IdlNamedFields [\<lparr>field_name = ''progress'', field_type = IdlTypePrim ''u8''\<rparr>])\<rparr>]\<rparr>]"

definition point_types :: "IdlTypeDef list" where
  "point_types =
     [\<lparr>typedef_name = ''Point'',
       typedef_type = IdlTyStruct
         [\<lparr>field_name = ''x'', field_type = IdlTypePrim ''u8''\<rparr>,
          \<lparr>field_name = ''y'', field_type = IdlTypePrim ''u8''\<rparr>]\<rparr>]"

text \<open>The prefix that \<^verbatim>\<open>flattenIdlAccounts\<close> carries below the groups named by a list of
  ancestors, and the types in which every array has elements of a primitive type.\<close>

definition prefix_of :: "string list \<Rightarrow> string option" where
  "prefix_of ancestors = (if ancestors = [] then None else Some (display_path ancestors))"

fun arrays_of_primitives :: "IdlType \<Rightarrow> bool" where
  "arrays_of_primitives (IdlTypeVec t) = arrays_of_primitives t"
| "arrays_of_primitives (IdlTypeOption t) = arrays_of_primitives t"
| "arrays_of_primitives (IdlTypeArray t n) = (case t of IdlTypePrim s \<Rightarrow> True | _ \<Rightarrow> False)"
| "arrays_of_primitives _ = True"

text \<open>The equations that run the coder and the formatter on a concrete input.\<close>

lemmas run_coder =
  new_BorshInstructionCoder_def initial_coder_def parseIxLayout_def all_type_defs_def
  Map_of_entries_def constructor_step_def ix_discriminator_def ix_discriminatorLength_def truthy_length_def Buffer_from_def
  encode_def encode_ns_def layout_encode_into_def decode_def subarray_to_def subarray_from_def
  encode_of_schema_def decode_of_schema_def decode_encode_of_schema_def
  example_externals_def resolver_struct_layout_def struct_shape_def primitive_shape_def
  lower_word_camelCase_def lower_word_snakeCase_def
  sighash_def SIGHASH_GLOBAL_NAMESPACE_def standin_digest_def
  object_get_def Let_def

lemmas run_layout = shape_layout_def shape_encode.simps matches.simps value_int_def int_in_range_def
  int_value_def int_of_le_def mismatch_def object_get_def

lemmas run_base58 = base58_encode_def nat_of_bytes_def digits58.simps BASE58_ALPHABET_def

lemmas run_format = formatIdlData.simps formatIdlDataDefined.simps js_toString_def
  number_toString_def integer_text_def decimal.simps inherited_member_def object_get_def variants_filter_first_def array_index_def
  ARRAY_MEMBER_NAMES_def example_externals_def lower_word_pascalCase_def ascii_upper_def Let_def

lemma map_errors_replicate:
  "f v = Inr b \<Longrightarrow> map_errors f (replicate n v) = Inr (replicate n b)"
  by (induction n) auto


lemma length_concat_replicate: "length (concat (replicate n b)) = n * length b"
  by (induction n) auto

section \<open>Properties\<close>

subsection \<open>Base58 is injective\<close>

lemma foldl_bytes_acc:
  "foldl (\<lambda>acc b. acc * 256 + unat (b::byte)) a bs = a * 256 ^ length bs + foldl (\<lambda>acc b. acc * 256 + unat b) 0 bs"
proof (induction bs arbitrary: a)
  case Nil then show ?case by simp
next
  case (Cons b bs)
  define f where "f = (\<lambda>acc (b::byte). acc * 256 + unat b)"
  have 1: "foldl f (a * 256 + unat b) bs = (a * 256 + unat b) * 256 ^ length bs + foldl f 0 bs"
    unfolding f_def by (rule Cons.IH)
  have 2: "foldl f (unat b) bs = unat b * 256 ^ length bs + foldl f 0 bs"
    unfolding f_def by (rule Cons.IH)
  have fab: "f a b = a * 256 + unat b" and f0b: "f 0 b = unat b" by (simp_all add: f_def)
  have "foldl f a (b # bs) = foldl f (a * 256 + unat b) bs" by (simp add: fab)
  also have "\<dots> = (a * 256 + unat b) * 256 ^ length bs + foldl f 0 bs" by (rule 1)
  also have "\<dots> = a * 256 ^ length (b # bs) + (unat b * 256 ^ length bs + foldl f 0 bs)"
    by (simp add: algebra_simps)
  also have "unat b * 256 ^ length bs + foldl f 0 bs = foldl f 0 (b # bs)"
    using 2 by (simp add: f0b)
  finally show ?case by (simp add: f_def)
qed

lemma nat_of_bytes_Cons: "nat_of_bytes (b # bs) = unat b * 256 ^ length bs + nat_of_bytes bs"
  using foldl_bytes_acc [of "unat b" bs] by (simp add: nat_of_bytes_def)

lemma nat_of_bytes_snoc: "nat_of_bytes (bs @ [b]) = nat_of_bytes bs * 256 + unat b"
  by (simp add: nat_of_bytes_def)

lemma nat_of_bytes_pos: "b \<noteq> 0 \<Longrightarrow> 0 < nat_of_bytes (b # bs)"
  by (simp add: nat_of_bytes_Cons unat_gt_0)

lemma bytes_of_nat_of_bytes:
  "bs = [] \<or> hd bs \<noteq> 0 \<Longrightarrow> bytes_of_nat (nat_of_bytes bs) = bs"
proof (induction bs rule: rev_induct)
  case Nil
  show ?case by (simp add: nat_of_bytes_def bytes_of_nat.simps)
next
  case (snoc b bs)
  have lt: "unat b < 256" using unsigned_less [of b, where ?'a = nat] by simp
  have nz: "nat_of_bytes bs * 256 + unat b \<noteq> 0"
  proof (cases bs)
    case Nil
    with snoc.prems have "b \<noteq> 0" by simp
    then show ?thesis by (simp add: unat_eq_0)
  next
    case (Cons x xs)
    with snoc.prems have "x \<noteq> 0" by simp
    then have "0 < nat_of_bytes bs" unfolding Cons by (rule nat_of_bytes_pos)
    then show ?thesis by simp
  qed
  have pre: "bs = [] \<or> hd bs \<noteq> 0" using snoc.prems by (cases bs) auto
  have d: "(nat_of_bytes bs * 256 + unat b) div 256 = nat_of_bytes bs" using lt by simp
  have m: "(nat_of_bytes bs * 256 + unat b) mod 256 = unat b" using lt by simp
  define N where "N = nat_of_bytes bs * 256 + unat b"
  have "bytes_of_nat N = bytes_of_nat (N div 256) @ [of_nat (N mod 256)]"
    using nz by (subst bytes_of_nat.simps) (simp add: N_def)
  also have "\<dots> = bytes_of_nat (nat_of_bytes bs) @ [of_nat (unat b)]"
    by (simp only: N_def d m)
  also have "\<dots> = bs @ [b]" using snoc.IH [OF pre] by simp
  finally show ?case by (simp add: nat_of_bytes_snoc N_def)
qed

lemma digits58_value: "foldl (\<lambda>acc d. acc * 58 + d) 0 (digits58 n) = n"
proof (induction n rule: digits58.induct)
  case (1 n)
  show ?case
  proof (cases "n = 0")
    case True then show ?thesis by (simp add: digits58.simps)
  next
    case False
    with 1 show ?thesis by (simp add: digits58.simps [of n])
  qed
qed

lemma digits58_lt: "d \<in> set (digits58 n) \<Longrightarrow> d < 58"
proof (induction n rule: digits58.induct)
  case (1 n)
  then show ?case
    by (cases "n = 0") (auto simp: digits58.simps [of n] digits58.simps [of 0])
qed

lemma digits58_hd: "0 < n \<Longrightarrow> digits58 n \<noteq> [] \<and> hd (digits58 n) \<noteq> 0"
proof (induction n rule: digits58.induct)
  case (1 n)
  show ?case
  proof (cases "n div 58 = 0")
    case True
    with 1 show ?thesis by (simp add: digits58.simps [of n] digits58.simps [of 0])
  next
    case False
    with 1 show ?thesis by (auto simp: digits58.simps [of n])
  qed
qed

lemma digits58_Nil: "digits58 n = [] \<Longrightarrow> n = 0"
  using digits58_hd [of n] by auto

lemma alphabet_distinct: "distinct BASE58_ALPHABET"
  by (simp add: BASE58_ALPHABET_def)

lemma alphabet_length: "length BASE58_ALPHABET = 58"
  by (simp add: BASE58_ALPHABET_def)

lemma alphabet_0: "BASE58_ALPHABET ! 0 = CHR ''1''"
  by (simp add: BASE58_ALPHABET_def)

lemma alphabet_inj: "i < 58 \<Longrightarrow> j < 58 \<Longrightarrow> BASE58_ALPHABET ! i = BASE58_ALPHABET ! j \<Longrightarrow> i = j"
  using alphabet_distinct alphabet_length by (simp add: nth_eq_iff_index_eq)

lemma takeWhile_eq_replicate: "takeWhile (\<lambda>b. b = x) xs = replicate (length (takeWhile (\<lambda>b. b = x) xs)) x"
  by (induction xs) auto

lemma split_ones:
  assumes "s = [] \<or> hd s \<noteq> c"
  shows "takeWhile (\<lambda>b. b = c) (replicate z c @ s) = replicate z c"
    and "dropWhile (\<lambda>b. b = c) (replicate z c @ s) = s"
  using assms by (induction z) (cases s; auto)+

lemma base58_digits_head:
  "map (\<lambda>d. BASE58_ALPHABET ! d) (digits58 n) = [] \<or>
   hd (map (\<lambda>d. BASE58_ALPHABET ! d) (digits58 n)) \<noteq> CHR ''1''"
proof (cases "n = 0")
  case True then show ?thesis by (simp add: digits58.simps)
next
  case False
  then have ne: "digits58 n \<noteq> []" and h: "hd (digits58 n) \<noteq> 0" using digits58_hd [of n] by auto
  from ne have "hd (digits58 n) \<in> set (digits58 n)" by simp
  then have "hd (digits58 n) < 58" by (rule digits58_lt)
  with h have "BASE58_ALPHABET ! hd (digits58 n) \<noteq> BASE58_ALPHABET ! 0"
    using alphabet_inj [of "hd (digits58 n)" 0] by auto
  with ne show ?thesis by (simp add: hd_map alphabet_0)
qed

lemma base58_encode_inj: "inj base58_encode"
proof (rule injI)
  fix a b :: Buffer
  assume eq: "base58_encode a = base58_encode b"
  let ?z = "\<lambda>x::Buffer. length (takeWhile (\<lambda>b. b = 0) x)"
  let ?r = "\<lambda>x::Buffer. dropWhile (\<lambda>b. b = 0) x"
  let ?s = "\<lambda>x. map (\<lambda>d. BASE58_ALPHABET ! d) (digits58 (nat_of_bytes (?r x)))"
  have e: "replicate (?z a) (CHR ''1'') @ ?s a = replicate (?z b) (CHR ''1'') @ ?s b"
    using eq by (simp add: base58_encode_def)
  have "takeWhile (\<lambda>c. c = CHR ''1'') (replicate (?z a) (CHR ''1'') @ ?s a) = replicate (?z a) (CHR ''1'')"
    by (rule split_ones(1) [OF base58_digits_head])
  moreover have "takeWhile (\<lambda>c. c = CHR ''1'') (replicate (?z b) (CHR ''1'') @ ?s b) = replicate (?z b) (CHR ''1'')"
    by (rule split_ones(1) [OF base58_digits_head])
  ultimately have "replicate (?z a) (CHR ''1'') = replicate (?z b) (CHR ''1'')"
    using e by simp
  then have z: "?z a = ?z b" by (metis length_replicate)
  have "dropWhile (\<lambda>c. c = CHR ''1'') (replicate (?z a) (CHR ''1'') @ ?s a) = ?s a"
    by (rule split_ones(2) [OF base58_digits_head])
  moreover have "dropWhile (\<lambda>c. c = CHR ''1'') (replicate (?z b) (CHR ''1'') @ ?s b) = ?s b"
    by (rule split_ones(2) [OF base58_digits_head])
  ultimately have s: "?s a = ?s b" using e by simp
  have "inj_on (\<lambda>d. BASE58_ALPHABET ! d) (set (digits58 (nat_of_bytes (?r a))) \<union> set (digits58 (nat_of_bytes (?r b))))"
    by (rule inj_onI) (auto dest!: digits58_lt intro: alphabet_inj)
  with s have "digits58 (nat_of_bytes (?r a)) = digits58 (nat_of_bytes (?r b))"
    by (simp add: inj_on_map_eq_map)
  then have "nat_of_bytes (?r a) = nat_of_bytes (?r b)"
    by (metis digits58_value)
  moreover have "?r a = [] \<or> hd (?r a) \<noteq> 0" "?r b = [] \<or> hd (?r b) \<noteq> 0"
    using hd_dropWhile [of "\<lambda>b. b = 0" a] hd_dropWhile [of "\<lambda>b. b = 0" b] by auto
  ultimately have r: "?r a = ?r b"
    by (metis bytes_of_nat_of_bytes)
  have "a = takeWhile (\<lambda>b. b = 0) a @ ?r a" by simp
  also have "\<dots> = replicate (?z a) 0 @ ?r a"
    using takeWhile_eq_replicate [of 0 a] by simp
  also have "\<dots> = replicate (?z b) 0 @ ?r b" using z r by simp
  also have "\<dots> = takeWhile (\<lambda>b. b = 0) b @ ?r b"
    using takeWhile_eq_replicate [of 0 b] by simp
  also have "\<dots> = b" by simp
  finally show "a = b" .
qed

subsection \<open>The constructor's loop and the tables it builds\<close>

lemma forEach_ixLayout:
  "constructor_forEach E this ixs = Inr c \<Longrightarrow> ixLayout c = ixLayout this"
  by (induction ixs arbitrary: this)
     (auto simp: constructor_step_def Let_def split: sum.splits if_splits)

lemma forEach_append:
  "constructor_forEach E this (xs @ ys) =
     (case constructor_forEach E this xs of Inl e \<Rightarrow> Inl e | Inr t \<Rightarrow> constructor_forEach E t ys)"
  by (induction xs arbitrary: this) (auto split: sum.splits)

lemma step_length:
  "constructor_step E this ix = Inr t \<Longrightarrow> discriminatorLength t = Some (ix_discriminatorLength ix)"
  by (auto simp: constructor_step_def Let_def split: if_splits)

lemma forEach_truthy_keeps:
  "constructor_forEach E this ixs = Inr c \<Longrightarrow> discriminatorLength this = Some n \<Longrightarrow> 0 < n \<Longrightarrow>
   discriminatorLength c = Some n \<and> (\<forall>ix\<in>set ixs. ix_discriminatorLength ix = n)"
proof (induction ixs arbitrary: this)
  case Nil then show ?case by simp
next
  case (Cons ix ixs)
  from Cons.prems(1) obtain t where t: "constructor_step E this ix = Inr t"
    and r: "constructor_forEach E t ixs = Inr c"
    by (auto split: sum.splits)
  from t Cons.prems(2,3) have eq: "ix_discriminatorLength ix = n"
    by (auto simp: constructor_step_def Let_def truthy_length_def split: if_splits)
  with t have "discriminatorLength t = Some n" by (simp add: step_length)
  from Cons.IH [OF r this Cons.prems(3)] eq show ?case by simp
qed

lemma forEach_positive_lengths:
  assumes "constructor_forEach E this ixs = Inr c"
    and "\<forall>ix\<in>set ixs. 0 < ix_discriminatorLength ix"
    and "ixs \<noteq> []"
  shows "\<exists>n. discriminatorLength c = Some n \<and> (\<forall>ix\<in>set ixs. ix_discriminatorLength ix = n)"
proof (cases ixs)
  case Nil with assms(3) show ?thesis by simp
next
  case (Cons ix rest)
  from assms(1) Cons obtain t where t: "constructor_step E this ix = Inr t"
    and r: "constructor_forEach E t rest = Inr c"
    by (auto split: sum.splits)
  have l: "discriminatorLength t = Some (ix_discriminatorLength ix)" using t by (rule step_length)
  have p: "0 < ix_discriminatorLength ix" using assms(2) Cons by simp
  from forEach_truthy_keeps [OF r l p] Cons show ?thesis by simp
qed

lemma forEach_tables:
  "constructor_forEach E this ixs = Inr c \<Longrightarrow>
   ixDiscriminator c = ixDiscriminator this ++ map_of (rev (map (\<lambda>ix. (ix_name ix, ix_discriminator E ix)) ixs)) \<and>
   discriminatorLayouts c = discriminatorLayouts this ++
      map_of (rev (map (\<lambda>ix. (bs58_encode E (ix_discriminator E ix), (ixLayout this (ix_name ix), ix_name ix))) ixs))"
proof (induction ixs arbitrary: this)
  case Nil then show ?case by simp
next
  case (Cons ix ixs)
  from Cons.prems(1) obtain t where t: "constructor_step E this ix = Inr t"
    and r: "constructor_forEach E t ixs = Inr c"
    by (auto split: sum.splits)
  from t have l: "ixLayout t = ixLayout this"
    and d: "ixDiscriminator t = (ixDiscriminator this)(ix_name ix \<mapsto> ix_discriminator E ix)"
    and dl: "discriminatorLayouts t = (discriminatorLayouts this)(bs58_encode E (ix_discriminator E ix) \<mapsto> (ixLayout this (ix_name ix), ix_name ix))"
    by (auto simp: constructor_step_def Let_def split: if_splits)
  from Cons.IH [OF r] show ?case
    by (auto simp: l d dl fun_eq_iff map_add_def split: option.splits)
qed

lemma new_coder_forEach:
  assumes "new_BorshInstructionCoder E idl = Inr this"
  shows "\<exists>layouts. parseIxLayout E idl = Inr layouts \<and>
           constructor_forEach E (initial_coder idl layouts) (idl_instructions idl) = Inr this"
  using assms by (auto simp: new_BorshInstructionCoder_def split: sum.splits)

lemma new_coder_tables:
  assumes "new_BorshInstructionCoder E idl = Inr this"
  shows "ixDiscriminator this =
           map_of (rev (map (\<lambda>ix. (ix_name ix, ix_discriminator E ix)) (idl_instructions idl)))"
    and "discriminatorLayouts this =
           map_of (rev (map (\<lambda>ix. (bs58_encode E (ix_discriminator E ix), (ixLayout this (ix_name ix), ix_name ix)))
                          (idl_instructions idl)))"
    and "parseIxLayout E idl = Inr (ixLayout this)"
proof -
  from new_coder_forEach [OF assms] obtain layouts where p: "parseIxLayout E idl = Inr layouts"
    and f: "constructor_forEach E (initial_coder idl layouts) (idl_instructions idl) = Inr this"
    by blast
  have l: "ixLayout this = layouts" using forEach_ixLayout [OF f] by (simp add: initial_coder_def)
  from forEach_tables [OF f] l
  show "ixDiscriminator this =
           map_of (rev (map (\<lambda>ix. (ix_name ix, ix_discriminator E ix)) (idl_instructions idl)))"
    and "discriminatorLayouts this =
           map_of (rev (map (\<lambda>ix. (bs58_encode E (ix_discriminator E ix), (ixLayout this (ix_name ix), ix_name ix)))
                          (idl_instructions idl)))"
    by (simp_all add: initial_coder_def)
  show "parseIxLayout E idl = Inr (ixLayout this)" using p l by simp
qed

lemma map_of_rev_last:
  assumes "\<forall>j\<in>set post. f j \<noteq> f x"
  shows "map_of (rev (map (\<lambda>j. (f j, g j)) (pre @ x # post))) (f x) = Some (g x)"
proof -
  have "map_of (rev (map (\<lambda>j. (f j, g j)) post)) (f x) = None"
    using assms by (auto simp: map_of_eq_None_iff image_iff)
  then show ?thesis by (simp add: map_add_def)
qed

lemma map_of_rev_distinct:
  assumes "distinct (map f xs)" and "x \<in> set xs"
  shows "map_of (rev (map (\<lambda>j. (f j, g j)) xs)) (f x) = Some (g x)"
proof -
  have "distinct (map fst (rev (map (\<lambda>j. (f j, g j)) xs)))"
    using assms(1) by (simp add: rev_map [symmetric] comp_def)
  moreover have "(f x, g x) \<in> set (rev (map (\<lambda>j. (f j, g j)) xs))" using assms(2) by auto
  ultimately show ?thesis by (rule map_of_is_SomeI)
qed

lemma map_of_rev_absent:
  assumes "\<forall>j\<in>set xs. f j \<noteq> k"
  shows "map_of (rev (map (\<lambda>j. (f j, g j)) xs)) k = None"
  using assms by (auto simp: map_of_eq_None_iff image_iff)

lemma ixLayout_entries_Inr:
  "ixLayout_entries E tys ixs = Inr es \<Longrightarrow>
   es = map (\<lambda>ix. (camelCase E (ix_name ix), projr (struct_layout E tys (ix_args ix) (camelCase E (ix_name ix))))) ixs \<and>
   (\<forall>ix\<in>set ixs. \<exists>l. struct_layout E tys (ix_args ix) (camelCase E (ix_name ix)) = Inr l)"
  by (induction ixs arbitrary: es) (auto simp: Let_def split: sum.splits)

lemma ixLayout_defined:
  assumes new: "new_BorshInstructionCoder E idl = Inr this"
    and canon: "canonical_names E idl"
    and ix: "ix \<in> set (idl_instructions idl)"
  shows "\<exists>layout. ixLayout this (ix_name ix) = Some layout \<and>
           struct_layout E (all_type_defs idl) (ix_args ix) (ix_name ix) = Inr layout"
proof -
  define tys where "tys = all_type_defs idl"
  from new_coder_tables(3) [OF new] obtain es
    where es: "ixLayout_entries E tys (idl_instructions idl) = Inr es"
      and l: "ixLayout this = map_of (rev es)"
    by (auto simp: parseIxLayout_def tys_def Map_of_entries_def split: sum.splits)
  define g where "g = (\<lambda>ix::IdlInstruction. projr (struct_layout E tys (ix_args ix) (camelCase E (ix_name ix))))"
  have c: "\<forall>j\<in>set (idl_instructions idl). camelCase E (ix_name j) = ix_name j"
    using canon by (simp add: canonical_names_def list_all_iff)
  have "es = map (\<lambda>ix. (camelCase E (ix_name ix), g ix)) (idl_instructions idl)"
    using ixLayout_entries_Inr [OF es] by (simp add: g_def)
  also have "\<dots> = map (\<lambda>ix. (ix_name ix, g ix)) (idl_instructions idl)"
    using c by simp
  finally have e: "es = map (\<lambda>ix. (ix_name ix, g ix)) (idl_instructions idl)" .
  have "distinct (map ix_name (idl_instructions idl))" using canon by (simp add: canonical_names_def)
  from map_of_rev_distinct [OF this ix, of g]
  have 1: "ixLayout this (ix_name ix) = Some (g ix)" by (simp add: l e)
  from ixLayout_entries_Inr [OF es] ix c
  have 2: "struct_layout E tys (ix_args ix) (ix_name ix) = Inr (g ix)"
    by (auto simp: g_def)
  from 1 2 show ?thesis by (simp add: tys_def)
qed

lemma ixDiscriminator_defined:
  assumes new: "new_BorshInstructionCoder E idl = Inr this"
    and canon: "canonical_names E idl"
    and ix: "ix \<in> set (idl_instructions idl)"
  shows "ixDiscriminator this (ix_name ix) = Some (ix_discriminator E ix)"
proof -
  have "distinct (map ix_name (idl_instructions idl))" using canon by (simp add: canonical_names_def)
  from map_of_rev_distinct [OF this ix] show ?thesis
    by (simp add: new_coder_tables(1) [OF new])
qed

lemma discriminatorLayouts_absent:
  assumes "new_BorshInstructionCoder E idl = Inr this"
    and "\<forall>ix\<in>set (idl_instructions idl). bs58_encode E (ix_discriminator E ix) \<noteq> k"
  shows "discriminatorLayouts this k = None"
  using map_of_rev_absent [OF assms(2)] by (simp add: new_coder_tables(2) [OF assms(1)])

lemma standin_digest_length: "length (standin_digest s) = 32"
  by (simp add: standin_digest_def)

lemma ix_discriminator_length:
  assumes "\<forall>s. length (sha256_digest E s) = 32"
  shows "length (ix_discriminator E ix) = ix_discriminatorLength ix"
  using assms
  by (simp add: ix_discriminator_def ix_discriminatorLength_def Buffer_from_def sighash_def Let_def
      split: option.splits)

lemma new_coder_length:
  assumes new: "new_BorshInstructionCoder E idl = Inr this"
    and nonempty: "\<forall>j\<in>set (idl_instructions idl). ix_discriminant j \<noteq> Some []"
    and ix: "ix \<in> set (idl_instructions idl)"
  shows "discriminatorLength this = Some (ix_discriminatorLength ix)"
proof -
  from new_coder_forEach [OF new] obtain layouts
    where f: "constructor_forEach E (initial_coder idl layouts) (idl_instructions idl) = Inr this"
    by blast
  have pos: "\<forall>j\<in>set (idl_instructions idl). 0 < ix_discriminatorLength j"
    using nonempty by (auto simp: ix_discriminatorLength_def split: option.splits)
  have ne: "idl_instructions idl \<noteq> []" using ix by auto
  from forEach_positive_lengths [OF f pos ne] ix show ?thesis by auto
qed

subsection \<open>Encoding, then decoding\<close>


subsection \<open>The layouts of the resolver decode what they encode\<close>

lemma length_le_bytes [simp]: "length (le_bytes k n) = k"
  by (induction k arbitrary: n) auto

lemma le_bytes_numeral [simp]:
  "le_bytes (numeral k) n = of_nat (n mod 256) # le_bytes (pred_numeral k) (n div 256)"
proof -
  have "le_bytes (Suc (pred_numeral k)) n = of_nat (n mod 256) # le_bytes (pred_numeral k) (n div 256)"
    by (rule le_bytes.simps)
  then show ?thesis by (simp only: numeral_eq_Suc [symmetric, of k])
qed














subsection \<open>The flattened accounts\<close>

lemma flattenIdlAccounts_Nil: "flattenIdlAccounts [] prefix = []"
  by (subst flattenIdlAccounts.simps) simp

lemma flattenIdlAccounts_leaf:
  "flattenIdlAccounts (IdlAccountLeaf a # rest) prefix =
     a\<lparr>account_name := prefixed_name prefix (sentenceCase (account_name a))\<rparr> #
     flattenIdlAccounts rest prefix"
  by (subst flattenIdlAccounts.simps, subst (2) flattenIdlAccounts.simps) simp

lemma flattenIdlAccounts_group:
  "flattenIdlAccounts (IdlAccounts name sub # rest) prefix =
     flattenIdlAccounts sub (Some (prefixed_name prefix (sentenceCase name))) @
     flattenIdlAccounts rest prefix"
  by (subst flattenIdlAccounts.simps, subst (3) flattenIdlAccounts.simps) simp

lemma join_with_snoc: "xs \<noteq> [] \<Longrightarrow> join_with sep (xs @ [x]) = join_with sep xs @ sep @ x"
  by (induction sep xs rule: join_with.induct) auto

lemma sentenceCase_Nil_iff: "sentenceCase s = [] \<longleftrightarrow> s = []"
  by (cases s) (auto simp: sentenceCase_def Let_def split: list.splits)

text \<open>\<^verbatim>\<open>sentenceCase\<close> turns a segment into its spaced words.\<close>

lemma is_upper_capital: "is_upper c = is_capital c"
proof -
  have "is_capital c \<longleftrightarrow> (of_char c :: nat) \<in> {65..90}" by (auto simp: is_capital_def)
  also have "{65..90} = (of_char ` set ''ABCDEFGHIJKLMNOPQRSTUVWXYZ'' :: nat set)"
    by (simp add: atLeastAtMost_def atLeast_def atMost_def) (auto, arith)
  also have "(of_char c :: nat) \<in> of_char ` set ''ABCDEFGHIJKLMNOPQRSTUVWXYZ'' \<longleftrightarrow>
      c \<in> set ''ABCDEFGHIJKLMNOPQRSTUVWXYZ''"
    by (rule inj_image_mem_iff) (simp add: inj_on_def)
  finally show ?thesis by (simp add: is_upper_def)
qed

lemma ascii_upper_capital: "ascii_upper c = capital_of c"
proof -
  have "97 \<le> (of_char c :: nat) \<and> (of_char c :: nat) \<le> 122 \<longleftrightarrow> (of_char c :: nat) \<in> {97..122}"
    by auto
  also have "{97..122} = (of_char ` set ''abcdefghijklmnopqrstuvwxyz'' :: nat set)"
    by (simp add: atLeastAtMost_def atLeast_def atMost_def) (auto, arith)
  also have "(of_char c :: nat) \<in> of_char ` set ''abcdefghijklmnopqrstuvwxyz'' \<longleftrightarrow>
      c \<in> set ''abcdefghijklmnopqrstuvwxyz''"
    by (rule inj_image_mem_iff) (simp add: inj_on_def)
  finally have r: "97 \<le> (of_char c :: nat) \<and> (of_char c :: nat) \<le> 122 \<longleftrightarrow>
      c \<in> set ''abcdefghijklmnopqrstuvwxyz''" .
  show ?thesis
  proof (cases "c \<in> set ''abcdefghijklmnopqrstuvwxyz''")
    case False
    with r show ?thesis by (simp only: ascii_upper_def capital_of_def if_False)
  next
    case True
    have "\<forall>x\<in>set ''abcdefghijklmnopqrstuvwxyz''. (of_char (ascii_upper x) :: nat) = of_char x - 32"
      by (simp add: ascii_upper_def)
    with True have "(of_char (ascii_upper c) :: nat) = of_char c - 32" by (rule bspec [rotated])
    then have "char_of (of_char (ascii_upper c) :: nat) = char_of (of_char c - 32 :: nat)" by simp
    then have "ascii_upper c = char_of (of_char c - 32 :: nat)" by simp
    with True r show ?thesis by (simp only: capital_of_def if_True)
  qed
qed

lemma cut_at_capitals_not_Nil: "cut_at_capitals s \<noteq> []"
  by (induction s) (auto simp: Let_def)

lemma join_with_Cons_Cons: "join_with sep ((c # w) # ws) = c # join_with sep (w # ws)"
  by (cases ws) auto

lemma spaced_pieces:
  "concat (map (\<lambda>c. if is_capital c then [CHR '' '', c] else [c]) s) = join_with '' '' (cut_at_capitals s)"
proof (induction s)
  case Nil
  show ?case by simp
next
  case (Cons c cs)
  obtain w ws where p: "cut_at_capitals cs = w # ws"
    using cut_at_capitals_not_Nil [of cs] by (cases "cut_at_capitals cs") auto
  show ?case by (simp add: Cons.IH p join_with_Cons_Cons)
qed

lemma sentenceCase_spaced_words: "sentenceCase s = spaced_words s"
proof -
  obtain w ws where p: "cut_at_capitals s = w # ws"
    using cut_at_capitals_not_Nil [of s] by (cases "cut_at_capitals s") auto
  have sp: "capital_of CHR '' '' = CHR '' ''" by (simp add: capital_of_def)
  show ?thesis
  proof (cases w)
    case Nil
    then show ?thesis
      by (cases ws) (simp_all add: sentenceCase_def spaced_words_def is_upper_capital spaced_pieces p
          capitalized_def ascii_upper_capital sp)
  next
    case (Cons c cs)
    then show ?thesis
      by (simp add: sentenceCase_def spaced_words_def is_upper_capital spaced_pieces p capitalized_def
          ascii_upper_capital join_with_Cons_Cons)
  qed
qed

lemma display_path_code: "display_path path = join_with '' > '' (map sentenceCase path)"
proof -
  have "sentenceCase = spaced_words" by (rule ext) (rule sentenceCase_spaced_words)
  then show ?thesis by (simp add: display_path_def)
qed

lemma display_path_single: "display_path [n] = sentenceCase n"
  by (simp add: display_path_code)

lemma display_path_snoc:
  "ancestors \<noteq> [] \<Longrightarrow> display_path (ancestors @ [n]) = display_path ancestors @ '' > '' @ sentenceCase n"
  by (simp add: display_path_code join_with_snoc)

lemma prefixed_name_path:
  assumes "ancestors \<noteq> [] \<longrightarrow> display_path ancestors \<noteq> []"
  shows "prefixed_name (prefix_of ancestors) (sentenceCase n) = display_path (ancestors @ [n])"
  using assms
  by (cases "ancestors = []")
     (simp_all add: prefixed_name_def prefix_of_def truthy_string_def display_path_single display_path_snoc)

lemma flatten_paths:
  assumes "ancestors \<noteq> [] \<longrightarrow> display_path ancestors \<noteq> []"
    and "ancestors = [] \<longrightarrow> top_groups_named accounts"
  shows "flattenIdlAccounts accounts (prefix_of ancestors) =
           map (\<lambda>(path, a). a\<lparr>account_name := display_path path\<rparr>) (leaf_paths accounts ancestors)"
  using assms
proof (induction accounts ancestors rule: leaf_paths.induct)
  case (1 ancestors)
  show ?case by (simp add: flattenIdlAccounts_Nil)
next
  case (2 a rest ancestors)
  have "top_groups_named (IdlAccountLeaf a # rest) \<Longrightarrow> top_groups_named rest"
    by (simp add: top_groups_named_def)
  with 2 show ?case
    by (simp add: flattenIdlAccounts_leaf prefixed_name_path)
next
  case (3 name sub rest ancestors)
  have p: "prefixed_name (prefix_of ancestors) (sentenceCase name) = display_path (ancestors @ [name])"
    using "3.prems"(1) by (rule prefixed_name_path)
  have ne: "display_path (ancestors @ [name]) \<noteq> []"
  proof (cases "ancestors = []")
    case True
    with "3.prems"(2) have "name \<noteq> []" by (simp add: top_groups_named_def)
    with True show ?thesis by (simp add: display_path_single sentenceCase_Nil_iff)
  next
    case False
    then show ?thesis by (simp add: display_path_snoc)
  qed
  have sub: "flattenIdlAccounts sub (prefix_of (ancestors @ [name])) =
           map (\<lambda>(path, a). a\<lparr>account_name := display_path path\<rparr>) (leaf_paths sub (ancestors @ [name]))"
    using ne by (intro "3.IH"(1)) simp_all
  have "top_groups_named (IdlAccounts name sub # rest) \<Longrightarrow> top_groups_named rest"
    by (simp add: top_groups_named_def)
  with "3.prems" have rest: "flattenIdlAccounts rest (prefix_of ancestors) =
           map (\<lambda>(path, a). a\<lparr>account_name := display_path path\<rparr>) (leaf_paths rest ancestors)"
    by (intro "3.IH"(2)) simp_all
  have "prefix_of (ancestors @ [name]) = Some (display_path (ancestors @ [name]))"
    by (simp add: prefix_of_def)
  with sub rest p show ?case
    by (simp add: flattenIdlAccounts_group)
qed

lemma flatten_names:
  assumes "top_groups_named accounts"
  shows "map account_name (flattenIdlAccounts accounts None) = map (\<lambda>p. display_path (fst p)) (leaf_paths accounts [])"
  using flatten_paths [of "[]" accounts] assms
  by (simp add: prefix_of_def comp_def case_prod_beta)

lemma zip_positional:
  "map (\<lambda>(idx, meta).
          if idx < length flat
          then \<lparr>display_name = Some (account_name (flat ! idx)),
                display_pubkey = meta_pubkey meta,
                display_isSigner = meta_isSigner meta,
                display_isWritable = meta_isWritable meta\<rparr>
          else \<lparr>display_name = None,
                display_pubkey = meta_pubkey meta,
                display_isSigner = meta_isSigner meta,
                display_isWritable = meta_isWritable meta\<rparr>)
       (enumerate 0 metas) =
   zip_names (map account_name flat) metas"
  by (rule nth_equalityI) (auto simp: zip_names_def nth_append nth_enumerate_eq min_def)

subsection \<open>The layouts of the example schemas\<close>

lemma store_layout:
  assumes "new_BorshInstructionCoder example_externals idl_store = Inr this"
  shows "ixLayout this ''store'' = Some (shape_layout (SStruct [(''data'', SVec (SInt False 1))]))"
    and "ixDiscriminator this ''store'' = Some [1, 2, 3, 4, 5, 6, 7, 8]"
  using assms by (auto simp: idl_store_def run_coder)

text \<open>The arguments \<^verbatim>\<open>point: Point\<close>, \<^verbatim>\<open>amount: u64\<close>, \<^verbatim>\<open>delta: i16\<close> and
  \<^verbatim>\<open>flags: vec<option<bool>>\<close>: their shape, a value that matches it, its bytes, and the
  value read back from them.\<close>

lemma decode_seq_numeral:
  "decode_seq f (numeral k) b = decode_seq f (Suc (pred_numeral k)) b"
  by (simp only: numeral_eq_Suc [symmetric, of k])

lemma resolver_example:
  "struct_shape lower_word_camelCase 8 point_types
     [\<lparr>field_name = ''point'', field_type = IdlTypeDefined ''Point''\<rparr>,
      \<lparr>field_name = ''amount'', field_type = IdlTypePrim ''u64''\<rparr>,
      \<lparr>field_name = ''delta'', field_type = IdlTypePrim ''i16''\<rparr>,
      \<lparr>field_name = ''flags'', field_type = IdlTypeVec (IdlTypeOption (IdlTypePrim ''bool''))\<rparr>] =
     Inr (SStruct [(''point'', SStruct [(''x'', SInt False 1), (''y'', SInt False 1)]),
                   (''amount'', SInt False 8), (''delta'', SInt True 2),
                   (''flags'', SVec (SOption SBool))])"
  "matches (SStruct [(''point'', SStruct [(''x'', SInt False 1), (''y'', SInt False 1)]),
                     (''amount'', SInt False 8), (''delta'', SInt True 2),
                     (''flags'', SVec (SOption SBool))])
     (JObj [(''point'', JObj [(''x'', JNum 1), (''y'', JNum 2)]), (''amount'', JBig 513),
            (''delta'', JNum (- 2)), (''flags'', JArr [JNull, JBool True])])"
  "shape_encode (SStruct [(''point'', SStruct [(''x'', SInt False 1), (''y'', SInt False 1)]),
                          (''amount'', SInt False 8), (''delta'', SInt True 2),
                          (''flags'', SVec (SOption SBool))])
     (JObj [(''point'', JObj [(''x'', JNum 1), (''y'', JNum 2)]), (''amount'', JBig 513),
            (''delta'', JNum (- 2)), (''flags'', JArr [JNull, JBool True])]) =
     Inr [1, 2, 1, 2, 0, 0, 0, 0, 0, 0, 254, 255, 2, 0, 0, 0, 0, 1, 1]"
  "shape_decode (SStruct [(''point'', SStruct [(''x'', SInt False 1), (''y'', SInt False 1)]),
                          (''amount'', SInt False 8), (''delta'', SInt True 2),
                          (''flags'', SVec (SOption SBool))])
     [1, 2, 1, 2, 0, 0, 0, 0, 0, 0, 254, 255, 2, 0, 0, 0, 0, 1, 1] =
     Inr (JObj [(''point'', JObj [(''x'', JNum 1), (''y'', JNum 2)]), (''amount'', JBig 513),
                (''delta'', JNum (- 2)), (''flags'', JArr [JNull, JBool True])], [])"
  by (simp_all add: struct_shape_def primitive_shape_def point_types_def run_layout
      shape_decode.simps decode_seq_numeral)

section \<open>The claims\<close>




text \<open>
  Claim C2. On a coder that the constructor built, with Base58 injective, a buffer whose
  leading \<open>discriminatorLength\<close> bytes are the discriminator of no instruction decodes to
  \<^verbatim>\<open>null\<close>: \<^verbatim>\<open>decode\<close> returns, and returns no instruction.
\<close>

theorem decode_unknown_prefix_is_null:
  assumes new: "new_BorshInstructionCoder E idl = Inr this"
    and inj: "inj (bs58_encode E)"
    and foreign: "\<forall>ix\<in>set (idl_instructions idl).
                    ix_discriminator E ix \<noteq> subarray_to buf (discriminatorLength this)"
  shows "decode E this (IxBuffer buf) enc = Inr None"
proof -
  have "\<forall>ix\<in>set (idl_instructions idl).
          bs58_encode E (ix_discriminator E ix) \<noteq> bs58_encode E (subarray_to buf (discriminatorLength this))"
    using foreign inj by (auto dest: injD)
  then have "discriminatorLayouts this (bs58_encode E (subarray_to buf (discriminatorLength this))) = None"
    by (rule discriminatorLayouts_absent [OF new])
  then show ?thesis by (simp add: decode_def Let_def)
qed

text \<open>The empty buffer, on a schema with discriminators of two bytes.\<close>

theorem decode_unknown_prefix_is_null_witness:
  "decode_of_schema example_externals idl_set (IxBuffer []) Hex = Inr None"
proof -
  obtain this where t: "new_BorshInstructionCoder example_externals idl_set = Inr this"
    by (simp add: idl_set_def run_coder)
  have inj: "inj (bs58_encode example_externals)"
    by (simp add: example_externals_def base58_encode_inj)
  have foreign: "\<forall>ix\<in>set (idl_instructions idl_set).
      ix_discriminator example_externals ix \<noteq> subarray_to [] (discriminatorLength this)"
    by (simp add: idl_set_def ix_discriminator_def Buffer_from_def subarray_to_def split: option.splits)
  from decode_unknown_prefix_is_null [OF t inj foreign] t show ?thesis
    by (simp add: decode_of_schema_def)
qed

text \<open>
  Claim C3. The constructor accepts a schema whose two instructions have explicit
  discriminators of 0 bytes and of 1 byte, and records the length 1: the test of
  \<open>discriminatorLength\<close> for truth takes the recorded length 0 for no length at all.
\<close>

theorem constructor_accepts_lengths_0_and_1:
  "map ix_discriminatorLength (idl_instructions idl_mixed_lengths) = [0, 1] \<and>
   map_sum id discriminatorLength (new_BorshInstructionCoder example_externals idl_mixed_lengths) =
     Inr (Some 1)"
  by (simp add: idl_mixed_lengths_def run_coder)

text \<open>When no explicit discriminator is empty, two instructions with different lengths
  make the constructor throw.\<close>

lemma constructor_rejects_mixed_lengths:
  assumes nonempty: "\<forall>j\<in>set (idl_instructions idl). ix_discriminant j \<noteq> Some []"
    and a: "a \<in> set (idl_instructions idl)" and b: "b \<in> set (idl_instructions idl)"
    and differ: "ix_discriminatorLength a \<noteq> ix_discriminatorLength b"
  shows "\<exists>e. new_BorshInstructionCoder E idl = Inl e"
proof (cases "new_BorshInstructionCoder E idl")
  case (Inl e) then show ?thesis by blast
next
  case (Inr this)
  from new_coder_length [OF Inr nonempty a] new_coder_length [OF Inr nonempty b] differ
  show ?thesis by simp
qed

text \<open>
  Claim C4, as amended. On a coder that the constructor built from a schema with no empty
  explicit discriminator, with Base58 injective and a digest of 32 bytes, a buffer
  shorter than the discriminator length decodes to \<^verbatim>\<open>null\<close>; no error is signalled.
\<close>

theorem decode_short_buffer_is_null:
  assumes new: "new_BorshInstructionCoder E idl = Inr this"
    and inj: "inj (bs58_encode E)"
    and digest: "\<forall>s. length (sha256_digest E s) = 32"
    and nonempty: "\<forall>ix\<in>set (idl_instructions idl). ix_discriminant ix \<noteq> Some []"
    and len: "discriminatorLength this = Some n"
    and short: "length buf < n"
  shows "decode E this (IxBuffer buf) enc = Inr None"
proof -
  have "bs58_encode E (ix_discriminator E ix) \<noteq> bs58_encode E (subarray_to buf (discriminatorLength this))"
    if ix: "ix \<in> set (idl_instructions idl)" for ix
  proof -
    have "discriminatorLength this = Some (ix_discriminatorLength ix)"
      by (rule new_coder_length [OF new nonempty ix])
    with len have "length (ix_discriminator E ix) = n"
      by (simp add: ix_discriminator_length [OF digest])
    with short have "ix_discriminator E ix \<noteq> subarray_to buf (discriminatorLength this)"
      by (auto simp: subarray_to_def len)
    with inj show ?thesis by (auto dest: injD)
  qed
  then have "discriminatorLayouts this (bs58_encode E (subarray_to buf (discriminatorLength this))) = None"
    by (intro discriminatorLayouts_absent [OF new]) blast
  then show ?thesis by (simp add: decode_def Let_def)
qed

text \<open>Three bytes, the beginning of the only discriminator of the schema.\<close>

theorem decode_short_buffer_is_null_witness:
  "decode_of_schema example_externals idl_initialize (IxBuffer [103, 108, 111]) Hex = Inr None"
proof -
  obtain this where t: "new_BorshInstructionCoder example_externals idl_initialize = Inr this"
    and l: "discriminatorLength this = Some 8"
    by (simp add: idl_initialize_def run_coder)
  have inj: "inj (bs58_encode example_externals)"
    by (simp add: example_externals_def base58_encode_inj)
  have digest: "\<forall>s. length (sha256_digest example_externals s) = 32"
    by (simp add: example_externals_def standin_digest_length)
  have nonempty: "\<forall>ix\<in>set (idl_instructions idl_initialize). ix_discriminant ix \<noteq> Some []"
    by (simp add: idl_initialize_def)
  have short: "length [103, 108, 111 :: byte] < 8" by simp
  from decode_short_buffer_is_null [OF t inj digest nonempty l short] t show ?thesis
    by (simp add: decode_of_schema_def)
qed

text \<open>
  A buffer of one byte where the discriminator length is 2: \<^verbatim>\<open>decode\<close> returns \<^verbatim>\<open>null\<close>
  and signals no error.
\<close>

theorem decode_short_buffer_counterexample:
  "map_sum id discriminatorLength (new_BorshInstructionCoder example_externals idl_set) = Inr (Some 2) \<and>
   length [1 :: byte] < 2 \<and>
   decode_of_schema example_externals idl_set (IxBuffer [1]) Hex = Inr None"
  by (simp add: idl_set_def run_coder run_base58)

text \<open>
  Claim C5. For an instruction with no explicit discriminant, the last of its name in a
  schema that the constructor accepts, the discriminator stored under its name is the
  first 8 bytes of the digest of \<^verbatim>\<open>global:\<close> followed by the snake-cased name, and the
  recorded discriminator length is 8.
\<close>

theorem sighash_discriminator:
  assumes new: "new_BorshInstructionCoder E idl = Inr this"
    and split: "idl_instructions idl = before @ ix # after"
    and none: "ix_discriminant ix = None"
    and last: "\<forall>j\<in>set after. ix_name j \<noteq> ix_name ix"
  shows "ixDiscriminator this (ix_name ix) =
           Some (take 8 (sha256_digest E (''global:'' @ snakeCase E (ix_name ix)))) \<and>
         discriminatorLength this = Some 8"
proof -
  have d: "ix_discriminator E ix = take 8 (sha256_digest E (''global:'' @ snakeCase E (ix_name ix)))"
    using none by (simp add: ix_discriminator_def sighash_def SIGHASH_GLOBAL_NAMESPACE_def Let_def)
  have "ixDiscriminator this (ix_name ix) = Some (ix_discriminator E ix)"
    using map_of_rev_last [OF last, of "ix_discriminator E" before]
    by (simp add: new_coder_tables(1) [OF new] split)
  moreover have "discriminatorLength this = Some 8"
  proof -
    from new_coder_forEach [OF new] obtain layouts
      where f: "constructor_forEach E (initial_coder idl layouts) (before @ ix # after) = Inr this"
      by (auto simp: split)
    then obtain t1 t2 where s: "constructor_step E t1 ix = Inr t2"
      and r: "constructor_forEach E t2 after = Inr this"
      by (auto simp: forEach_append split: sum.splits)
    have "discriminatorLength t2 = Some 8"
      using step_length [OF s] none by (simp add: ix_discriminatorLength_def)
    from forEach_truthy_keeps [OF r this] show ?thesis by simp
  qed
  ultimately show ?thesis by (simp add: d)
qed

text \<open>The schema with the single instruction \<^verbatim>\<open>initialize\<close>.\<close>

theorem sighash_discriminator_witness:
  "map_sum id (\<lambda>this. (ixDiscriminator this ''initialize'', discriminatorLength this))
     (new_BorshInstructionCoder example_externals idl_initialize) =
   Inr (Some (take 8 (standin_digest ''global:initialize'')), Some 8)"
proof -
  obtain this where t: "new_BorshInstructionCoder example_externals idl_initialize = Inr this"
    by (simp add: idl_initialize_def run_coder)
  define ix where "ix = \<lparr>ix_name = ''initialize'', ix_accounts = [], ix_args = [], ix_discriminant = None\<rparr>"
  have split: "idl_instructions idl_initialize = [] @ ix # []"
    by (simp add: idl_initialize_def ix_def)
  have none: "ix_discriminant ix = None" by (simp add: ix_def)
  have last: "\<forall>j\<in>set []. ix_name j \<noteq> ix_name ix" by simp
  from sighash_discriminator [OF t split none last] t show ?thesis
    by (simp add: ix_def example_externals_def lower_word_snakeCase_def)
qed

text \<open>
  Claim C6. Formatting the value \<^verbatim>\<open>{running: {progress: 42}}\<close> of the enum \<^verbatim>\<open>Status\<close> with
  the variants \<^verbatim>\<open>Idle\<close> and \<^verbatim>\<open>Running {progress: u8}\<close> throws the error
  \<^verbatim>\<open>Unable to find variant\<close>; it does not yield \<^verbatim>\<open>Running { progress: 42 }\<close>.
\<close>

theorem enum_struct_variant_throws:
  "formatIdlData example_externals \<lparr>field_name = ''status'', field_type = IdlTypeDefined ''Status''\<rparr>
     (JObj [(''running'', JObj [(''progress'', JNum 42)])]) (Some status_types) =
   Inl (Error ''Unable to find variant'')"
  by (simp add: status_types_def run_format)

text \<open>A variant without fields does format as its name in upper camel case, and every
  value of a variant that carries a field throws.\<close>

lemma enum_unit_variant_example:
  "formatIdlData example_externals \<lparr>field_name = ''status'', field_type = IdlTypeDefined ''Status''\<rparr>
     (JObj [(''idle'', JObj [])]) (Some status_types) = Inr ''Idle''"
  by (simp add: status_types_def run_format)

lemma enum_unit_variant:
  assumes "typedef_type typeDef = IdlTyEnum variants" and "variants \<noteq> []"
    and "variant_name (hd variants) \<noteq> []"
  shows "formatIdlDataDefined E typeDef (JObj ((variant, JObj []) # others)) types = Inr (pascalCase E variant)"
  using assms by (simp add: formatIdlDataDefined.simps object_get_def Let_def)

lemma enum_variant_with_fields_throws:
  assumes "typedef_type typeDef = IdlTyEnum variants" and "variants \<noteq> []"
    and "variant_name (hd variants) \<noteq> []"
  shows "formatIdlDataDefined E typeDef (JObj ((variant, JObj ((f, v) # fs)) # others)) types =
           Inl (if array_index variant (length variants) = None \<and> variant \<notin> set ARRAY_MEMBER_NAMES
                then Error ''Unable to find variant'' else TypeError)"
  using assms
  by (simp add: formatIdlDataDefined.simps object_get_def variants_filter_first_def Let_def)

text \<open>
  Claim C7. Formatting a vector with one element of the defined type \<^verbatim>\<open>Point\<close> throws
  \<^verbatim>\<open>User defined types not provided\<close>, although the type table is supplied and the same
  element formats as \<^verbatim>\<open>{ x: 1, y: 2 }\<close> on its own and under an option: the vector case
  does not pass the table on.
\<close>

theorem vector_of_defined_throws:
  "formatIdlData example_externals \<lparr>field_name = ''points'', field_type = IdlTypeVec (IdlTypeDefined ''Point'')\<rparr>
     (JArr [JObj [(''x'', JNum 1), (''y'', JNum 2)]]) (Some point_types) =
     Inl (Error ''User defined types not provided'') \<and>
   formatIdlData example_externals \<lparr>field_name = ''point'', field_type = IdlTypeDefined ''Point''\<rparr>
     (JObj [(''x'', JNum 1), (''y'', JNum 2)]) (Some point_types) = Inr ''{ x: 1, y: 2 }'' \<and>
   formatIdlData example_externals \<lparr>field_name = ''point'', field_type = IdlTypeOption (IdlTypeDefined ''Point'')\<rparr>
     (JObj [(''x'', JNum 1), (''y'', JNum 2)]) (Some point_types) = Inr ''{ x: 1, y: 2 }''"
  by (simp add: point_types_def run_format)

text \<open>No vector of a defined type with an element formats; a vector of a primitive type
  is the bracketed list of its elements' texts, joined with a comma and a space.\<close>

lemma vector_of_defined_never_renders:
  "formatIdlData E \<lparr>field_name = n, field_type = IdlTypeVec (IdlTypeDefined t)\<rparr> (JArr (d # ds)) types =
     Inl (Error ''User defined types not provided'')"
  by (simp add: formatIdlData.simps)

lemma vector_of_primitives:
  "formatIdlData E \<lparr>field_name = n, field_type = IdlTypeVec (IdlTypePrim p)\<rparr> (JArr ds) types =
     (case map_errors js_toString ds of
        Inl e \<Rightarrow> Inl e
      | Inr ss \<Rightarrow> Inr (''['' @ join_with '', '' ss @ '']''))"
proof -
  have "(\<lambda>d. formatIdlData E \<lparr>field_name = [], field_type = IdlTypePrim p\<rparr> d None) = js_toString"
    by (rule ext) (simp add: formatIdlData.simps)
  then show ?thesis by (simp add: formatIdlData.simps [of E "\<lparr>field_name = n, field_type = IdlTypeVec (IdlTypePrim p)\<rparr>"])
qed

text \<open>
  Claim C8, as amended. When \<^verbatim>\<open>format\<close> returns a display for an instruction of the schema
  whose top-level account groups have non-empty names, the displayed accounts are the
  runtime accounts zipped by position with the display names of the leaves of the account
  tree, depth first in declared order; the runtime accounts past the leaves get no name.
  The name of a leaf is made of the names of the groups around it and its own name, joined
  with \<^verbatim>\<open> > \<close>, each of them cut in front of its capital letters, with the pieces a space
  apart and the first character as a capital: the words of a name in camel case, and a
  leading space on a name that begins with a capital letter.
\<close>

theorem format_accounts:
  assumes fmt: "format E ix metas idl = Inr (Some d)"
    and found: "filter (\<lambda>i. inst_name ix = ix_name i) (idl_instructions idl) = idlIx # others"
    and named: "top_groups_named (ix_accounts idlIx)"
  shows "display_accounts d =
           zip_names (map (\<lambda>p. display_path (fst p)) (leaf_paths (ix_accounts idlIx) [])) metas"
proof -
  from fmt found have "display_accounts d =
      zip_names (map account_name (flattenIdlAccounts (ix_accounts idlIx) None)) metas"
    by (auto simp: format_def Let_def zip_positional split: sum.splits)
  then show ?thesis by (simp add: flatten_names [OF named])
qed

text \<open>The group \<^verbatim>\<open>authority\<close> with \<^verbatim>\<open>owner\<close> and \<^verbatim>\<open>payer\<close>, then \<^verbatim>\<open>systemProgram\<close>, and
  four runtime accounts.\<close>

theorem format_accounts_witness:
  "\<exists>d. format example_externals \<lparr>inst_name = ''transfer'', inst_data = JObj []\<rparr> example_metas idl_transfer = Inr (Some d) \<and>
       map display_name (display_accounts d) =
         [Some ''Authority > Owner'', Some ''Authority > Payer'', Some ''System Program'', None]"
proof -
  define idlIx where "idlIx = \<lparr>ix_name = ''transfer'', ix_accounts = example_accounts, ix_args = [], ix_discriminant = None\<rparr>"
  obtain d where fmt: "format example_externals \<lparr>inst_name = ''transfer'', inst_data = JObj []\<rparr> example_metas idl_transfer = Inr (Some d)"
    by (simp add: format_def idl_transfer_def Let_def)
  have found: "filter (\<lambda>i. inst_name \<lparr>inst_name = ''transfer'', inst_data = JObj []\<rparr> = ix_name i)
      (idl_instructions idl_transfer) = idlIx # []"
    by (simp add: idl_transfer_def idlIx_def)
  have named: "top_groups_named (ix_accounts idlIx)"
    by (simp add: idlIx_def example_accounts_def top_groups_named_def)
  have acc: "ix_accounts idlIx = example_accounts" by (simp add: idlIx_def)
  have names: "map display_name
      (zip_names (map (\<lambda>p. display_path (fst p)) (leaf_paths example_accounts [])) example_metas) =
      [Some ''Authority > Owner'', Some ''Authority > Payer'', Some ''System Program'', None]"
    by (simp add: example_accounts_def example_metas_def zip_names_def display_path_code
        sentenceCase_def is_upper_def ascii_upper_def)
  have "display_accounts d =
      zip_names (map (\<lambda>p. display_path (fst p)) (leaf_paths (ix_accounts idlIx) [])) example_metas"
    by (rule format_accounts [OF fmt found named])
  then have n: "map display_name (display_accounts d) =
      [Some ''Authority > Owner'', Some ''Authority > Payer'', Some ''System Program'', None]"
    by (simp only: acc names)
  show ?thesis by (rule exI [of _ d], rule conjI, rule fmt, rule n)
qed

text \<open>
  The claim's own example, the group named \<^verbatim>\<open>Authority\<close>: the names of its two accounts
  come out with a space in front, not as \<^verbatim>\<open>Authority > Owner\<close> and \<^verbatim>\<open>Authority > Payer\<close>.
  And under a top-level group with the empty name the account \<^verbatim>\<open>owner\<close> is displayed as
  \<^verbatim>\<open>Owner\<close>, where joining the two names of its path with \<^verbatim>\<open> > \<close> gives \<^verbatim>\<open> > Owner\<close>.
\<close>

theorem format_accounts_counterexample:
  "displayed_names (format example_externals \<lparr>inst_name = ''transfer'', inst_data = JObj []\<rparr>
      (take 3 example_metas) idl_transfer_Authority) =
     Inr (Some [Some '' Authority > Owner'', Some '' Authority > Payer'', Some ''System Program'']) \<and>
   displayed_names (format example_externals \<lparr>inst_name = ''transfer'', inst_data = JObj []\<rparr>
      (take 1 example_metas) idl_transfer_unnamed) = Inr (Some [Some ''Owner'']) \<and>
   display_path [[], ''owner''] = '' > Owner''"
  by (simp add: displayed_names_def format_def idl_transfer_Authority_def idl_transfer_unnamed_def
      example_metas_def flattenIdlAccounts_Nil flattenIdlAccounts_leaf flattenIdlAccounts_group
      prefixed_name_def truthy_string_def display_path_code sentenceCase_def is_upper_def
      ascii_upper_def Let_def)

text \<open>
  Claim C9. The label of an array of vectors of \<^verbatim>\<open>u8\<close> of length 3 comes out as
  \<^verbatim>\<open>Array<[object Object]; 3>\<close>, where the rule of the claim gives \<^verbatim>\<open>Array<Vec<u8>; 3>\<close>:
  the array case does not format its element type.
\<close>

theorem array_label_of_vector:
  "formatIdlType (IdlTypeArray (IdlTypeVec (IdlTypePrim ''u8'')) 3) = Inr ''Array<[object Object]; 3>'' \<and>
   type_label (IdlTypeArray (IdlTypeVec (IdlTypePrim ''u8'')) 3) = Some ''Array<Vec<u8>; 3>''"
  by (simp add: template_IdlType_def decimal.simps)

text \<open>For a type whose arrays all have elements of a primitive type, the label is the one
  that the rule gives.\<close>

lemma formatIdlType_label:
  "arrays_of_primitives t \<Longrightarrow> type_label t = Some s \<Longrightarrow> formatIdlType t = Inr s"
  by (induction t arbitrary: s) (auto simp: template_IdlType_def split: IdlType.splits)

text \<open>
  Claim C10, as amended. When \<^verbatim>\<open>encode\<close> finds a layout and a discriminator under the name
  in camel case, then for every value that the layout encodes it returns the
  discriminator followed by exactly the encoded body when the body has at most 1000
  bytes, and throws a \<open>RangeError\<close> when it has more.
\<close>

theorem encode_scratch_buffer:
  assumes layout: "ixLayout this (camelCase E ixName) = Some layout"
    and discriminator: "ixDiscriminator this (camelCase E ixName) = Some discriminator"
    and body: "layout_encode layout v = Inr body"
  shows "encode E this ixName v =
           (if length body \<le> 1000 then Inr (discriminator @ body) else Inl RangeError)"
  using assms by (simp add: encode_def encode_ns_def layout_encode_into_def Let_def)

text \<open>A vector of two bytes, and the vector of 1000 bytes, for \<^verbatim>\<open>store\<close>.\<close>

theorem encode_scratch_buffer_witness:
  "encode_of_schema example_externals idl_store ''store'' (JObj [(''data'', JArr [JNum 7, JNum 9])]) =
     Inr [1, 2, 3, 4, 5, 6, 7, 8, 2, 0, 0, 0, 7, 9] \<and>
   encode_of_schema example_externals idl_store ''store'' store_1000_bytes = Inl RangeError"
proof -
  obtain this where t: "new_BorshInstructionCoder example_externals idl_store = Inr this"
    by (simp add: idl_store_def run_coder)
  let ?s = "SStruct [(''data'', SVec (SInt False 1))]"
  have c: "camelCase example_externals ''store'' = ''store''"
    by (simp add: example_externals_def lower_word_camelCase_def)
  have l: "ixLayout this (camelCase example_externals ''store'') = Some (shape_layout ?s)"
    using store_layout(1) [OF t] by (simp only: c)
  have d: "ixDiscriminator this (camelCase example_externals ''store'') = Some [1, 2, 3, 4, 5, 6, 7, 8]"
    using store_layout(2) [OF t] by (simp only: c)
  have small: "layout_encode (shape_layout ?s) (JObj [(''data'', JArr [JNum 7, JNum 9])]) =
      Inr [2, 0, 0, 0, 7, 9]"
    by (simp add: run_layout)
  have big: "layout_encode (shape_layout ?s) store_1000_bytes =
      Inr (le_bytes 4 1000 @ concat (replicate 1000 [0]))"
    by (simp add: run_layout store_1000_bytes_def map_errors_replicate [where b = "[0]"]
        del: le_bytes_numeral)
  from encode_scratch_buffer [OF l d small]
  have 1: "encode example_externals this ''store'' (JObj [(''data'', JArr [JNum 7, JNum 9])]) =
      Inr [1, 2, 3, 4, 5, 6, 7, 8, 2, 0, 0, 0, 7, 9]"
    by simp
  from encode_scratch_buffer [OF l d big]
  have 2: "encode example_externals this ''store'' store_1000_bytes = Inl RangeError"
    by (simp add: length_concat_replicate del: le_bytes_numeral)
  from 1 2 t show ?thesis by (simp add: encode_of_schema_def)
qed

text \<open>
  The claim as it stands promises this of every instruction. The constructor accepts a
  schema whose instruction is named \<^verbatim>\<open>set_value\<close>, and the layout of the instruction encodes
  the value \<^verbatim>\<open>{value: 7}\<close> into one byte; yet \<^verbatim>\<open>encode\<close> throws \<^verbatim>\<open>Unknown method: setValue\<close>,
  because the constructor files the discriminator under the name as the schema has it
  and \<^verbatim>\<open>encode\<close> looks it up under the name in camel case.
\<close>

theorem encode_scratch_buffer_counterexample:
  "map_sum id discriminatorLength (new_BorshInstructionCoder snake_externals idl_set_value) =
     Inr (Some 2) \<and>
   struct_shape snake_camelCase 8 [] [\<lparr>field_name = ''value'', field_type = IdlTypePrim ''u8''\<rparr>] =
     Inr (SStruct [(''value'', SInt False 1)]) \<and>
   shape_encode (SStruct [(''value'', SInt False 1)]) (JObj [(''value'', JNum 7)]) = Inr [7] \<and>
   encode_of_schema snake_externals idl_set_value ''set_value'' (JObj [(''value'', JNum 7)]) =
     Inl (Error ''Unknown method: setValue'')"
  by (simp add: idl_set_value_def snake_externals_def run_coder run_layout ascii_upper_def)

text \<open>On a schema whose instruction names are in camel case and pairwise distinct,
  \<^verbatim>\<open>encode\<close> finds both for every instruction, and the discriminator is the instruction's.\<close>

lemma encode_of_canonical_schema:
  assumes new: "new_BorshInstructionCoder E idl = Inr this"
    and canon: "canonical_names E idl"
    and ix: "ix \<in> set (idl_instructions idl)"
  shows "\<exists>layout. ixLayout this (camelCase E (ix_name ix)) = Some layout \<and>
           ixDiscriminator this (camelCase E (ix_name ix)) = Some (ix_discriminator E ix)"
proof -
  from ixLayout_defined [OF new canon ix] obtain layout
    where l: "ixLayout this (ix_name ix) = Some layout" by blast
  have c: "camelCase E (ix_name ix) = ix_name ix"
    using canon ix by (simp add: canonical_names_def list_all_iff)
  have d: "ixDiscriminator this (ix_name ix) = Some (ix_discriminator E ix)"
    by (rule ixDiscriminator_defined [OF new canon ix])
  from l d show ?thesis by (simp add: c)
qed

end
